theory Spec2Isabelle
  imports Complex_Main "HOL-Library.Word"
begin

section \<open>trio-parallel: worker processes, framed pipes, worker cache and dispatcher\<close>

text \<open>
  A shallow embedding of the host and worker code of \<^verbatim>\<open>trio_parallel\<close>:
  \<^item> \<^verbatim>\<open>_worker_processes.py\<close>: \<^verbatim>\<open>ProcCache\<close> (\<^verbatim>\<open>prune\<close>, \<^verbatim>\<open>push\<close>, \<^verbatim>\<open>pop\<close>);
  \<^item> \<^verbatim>\<open>_proc.py\<close>: the framed channel of \<^verbatim>\<open>PosixWorkerProc\<close> (\<^verbatim>\<open>_send\<close>, \<^verbatim>\<open>_recv\<close>,
    \<^verbatim>\<open>_recv_exactly\<close>), the worker loop \<^verbatim>\<open>WorkerProcBase._work\<close> and the handle's
    \<^verbatim>\<open>run_sync\<close> and \<^verbatim>\<open>kill\<close>;
  \<^item> \<^verbatim>\<open>_impl.py\<close>: \<^verbatim>\<open>current_default_worker_limiter\<close>, \<^verbatim>\<open>cache_scope\<close> and the
    dispatcher \<^verbatim>\<open>run_sync\<close>.

  Python exceptions are values: every function that can raise returns a sum whose
  left injection is the exception. Mutable objects (the deque of the cache, the
  receiving stream, the run-local variable) are passed in and returned updated.
\<close>

subsection \<open>Exceptions\<close>

text \<open>
  An exception is its class and its message. Only the classes the modelled code raises
  or catches by name are constructors; any other class is \<open>OtherError\<close> with its name.
\<close>

datatype exc_kind =
    EndOfChannel | BrokenWorkerError | Cancelled | BrokenResourceError
  | IndexError | ValueError | TypeError | AttributeError | RuntimeError
  | AssertionError | StructError | ZeroDivisionError | OtherError string

datatype exc = Exc (kind: exc_kind) (message: string)

subsection \<open>The worker cache (\<^verbatim>\<open>ProcCache\<close>)\<close>

text \<open>
  The cache is a \<^verbatim>\<open>collections.deque\<close>. It is modelled as a list in the deque's own order:
  the head is the left (oldest) end, the last element the right (most recently pushed)
  end. \<open>is_alive\<close> is the answer of \<^verbatim>\<open>proc.is_alive()\<close>, a query to the operating
  system.

  \<^verbatim>\<open>
  def prune(self):
      try:
          while True:
              proc = self._cache.popleft()
              if proc.is_alive():
                  self._cache.appendleft(proc)
                  return
      except IndexError:
          pass
  \<close>
\<close>

fun prune :: "('h \<Rightarrow> bool) \<Rightarrow> 'h list \<Rightarrow> 'h list" where
  "prune is_alive [] = []"
| "prune is_alive (proc # cache) =
     (if is_alive proc then proc # cache else prune is_alive cache)"

text \<open>
  \<^verbatim>\<open>
  def push(self, proc):
      self._cache.append(proc)
  \<close>
\<close>

definition push :: "'h list \<Rightarrow> 'h \<Rightarrow> 'h list" where
  "push cache proc = cache @ [proc]"

text \<open>
  \<^verbatim>\<open>
  def pop(self):
      """Get live worker process or raise IndexError"""
      while True:
          proc = self._cache.pop()
          if proc.is_alive():
              return proc
  \<close>
  \<^verbatim>\<open>deque.pop()\<close> removes the right end and raises \<^verbatim>\<open>IndexError\<close> on an empty deque.
  The deque is mutated before the exception leaves, so the model returns the cache
  as it is left in both cases.
\<close>

function pop :: "('h \<Rightarrow> bool) \<Rightarrow> 'h list \<Rightarrow> (exc + 'h) \<times> 'h list" where
  "pop is_alive cache =
     (if cache = [] then (Inl (Exc IndexError ''pop from an empty deque''), cache)
      else let proc = last cache; cache' = butlast cache
           in if is_alive proc then (Inr proc, cache') else pop is_alive cache')"
  by pat_completeness auto
termination
  by (relation "measure (\<lambda>(is_alive, cache). length cache)") auto

declare pop.simps [simp del]

subsection \<open>The framed pipe channel (\<^verbatim>\<open>PosixWorkerProc\<close>)\<close>

text \<open>
  Bytes are 8-bit words. \<^verbatim>\<open>struct.pack\<close> and \<^verbatim>\<open>struct.unpack\<close> are used with the formats
  \<^verbatim>\<open>"!i"\<close> (4 bytes, big-endian, signed two's complement) and \<^verbatim>\<open>"!Q"\<close> (8 bytes,
  big-endian, unsigned). \<open>be_bytes k m\<close> is the \<open>k\<close>-byte big-endian layout of \<open>m\<close>,
  \<open>be_value\<close> reads a big-endian byte string as an unsigned number. Packing a number
  outside the format's range raises \<^verbatim>\<open>struct.error\<close>, as does unpacking a buffer of
  the wrong length.
\<close>

type_synonym byte = "8 word"

fun be_bytes :: "nat \<Rightarrow> int \<Rightarrow> byte list" where
  "be_bytes 0 m = []"
| "be_bytes (Suc k) m = be_bytes k (m div 256) @ [word_of_int (m mod 256)]"

definition be_value :: "byte list \<Rightarrow> int" where
  "be_value bs = foldl (\<lambda>acc b. acc * 256 + uint b) 0 bs"

definition pack_i :: "int \<Rightarrow> exc + byte list" where
  "pack_i n =
     (if - (2 ^ 31) \<le> n \<and> n \<le> 2 ^ 31 - 1 then Inr (be_bytes 4 (n mod 2 ^ 32))
      else Inl (Exc StructError '''i' format requires -2147483648 <= number <= 2147483647''))"

definition pack_Q :: "int \<Rightarrow> exc + byte list" where
  "pack_Q n =
     (if n < 0 then Inl (Exc StructError ''argument out of range'')
      else if n > 2 ^ 64 - 1 then Inl (Exc StructError ''int too large to convert'')
      else Inr (be_bytes 8 n))"

definition unpack_i :: "byte list \<Rightarrow> exc + int" where
  "unpack_i buf =
     (if length buf \<noteq> 4 then Inl (Exc StructError ''unpack requires a buffer of 4 bytes'')
      else let v = be_value buf in Inr (if v \<ge> 2 ^ 31 then v - 2 ^ 32 else v))"

definition unpack_Q :: "byte list \<Rightarrow> exc + int" where
  "unpack_Q buf =
     (if length buf \<noteq> 8 then Inl (Exc StructError ''unpack requires a buffer of 8 bytes'')
      else Inr (be_value buf))"

text \<open>
  The sending stream \<^verbatim>\<open>self._send_stream\<close> records every \<^verbatim>\<open>send_all\<close> call as one write.
  A stream whose peer is gone, or whose task is cancelled, raises instead: \<open>wfault\<close>
  is the exception \<^verbatim>\<open>send_all\<close> raises, if any.
\<close>

record wstream =
  writes :: "byte list list"
  wfault :: "exc option"

definition send_all :: "byte list \<Rightarrow> wstream \<Rightarrow> (exc + unit) \<times> wstream" where
  "send_all data s =
     (case wfault s of
        Some e \<Rightarrow> (Inl e, s)
      | None \<Rightarrow> (Inr (), s\<lparr>writes := writes s @ [data]\<rparr>))"

text \<open>Consecutive \<^verbatim>\<open>await self._send_stream.send_all(...)\<close> statements: the first that raises ends them.\<close>

fun send_each :: "byte list list \<Rightarrow> wstream \<Rightarrow> (exc + unit) \<times> wstream" where
  "send_each [] s = (Inr (), s)"
| "send_each (d # ds) s =
     (case send_all d s of
        (Inl e, s') \<Rightarrow> (Inl e, s')
      | (Inr _, s') \<Rightarrow> send_each ds s')"

text \<open>
  \<^verbatim>\<open>
  async def _send(self, buf):
      n = len(buf)
      if n > 0x7FFFFFFF:
          pre_header = struct.pack("!i", -1)
          header = struct.pack("!Q", n)
          await self._send_stream.send_all(pre_header)
          await self._send_stream.send_all(header)
          await self._send_stream.send_all(buf)
      else:
          header = struct.pack("!i", n)
          if n > 16384:
              await self._send_stream.send_all(header)
              await self._send_stream.send_all(buf)
          else:
              await self._send_stream.send_all(header + buf)
  \<close>
\<close>

definition send :: "byte list \<Rightarrow> wstream \<Rightarrow> (exc + unit) \<times> wstream" where
  "send buf s =
     (let n = int (length buf) in
      if n > 0x7FFFFFFF then
        (case pack_i (- 1) of
           Inl e \<Rightarrow> (Inl e, s)
         | Inr pre_header \<Rightarrow>
             (case pack_Q n of
                Inl e \<Rightarrow> (Inl e, s)
              | Inr header \<Rightarrow> send_each [pre_header, header, buf] s))
      else
        (case pack_i n of
           Inl e \<Rightarrow> (Inl e, s)
         | Inr header \<Rightarrow>
             if n > 16384 then send_each [header, buf] s
             else send_each [header @ buf] s))"

text \<open>
  The receiving stream \<^verbatim>\<open>self._recv_stream\<close> is what the operating system will hand
  over, in order: chunks of bytes as they arrive, and exceptions raised inside
  \<^verbatim>\<open>receive_some\<close> (a cancellation, a broken or closed resource). When nothing is
  left the peer has closed the pipe and \<^verbatim>\<open>receive_some\<close> returns the empty byte
  string. \<open>reads\<close> counts the reads of the file descriptor.

  \<^verbatim>\<open>receive_some(max_bytes)\<close> of \<^verbatim>\<open>trio.lowlevel.FdStream\<close> returns at least one and at
  most \<^verbatim>\<open>max_bytes\<close> bytes before end of file. It raises \<^verbatim>\<open>ValueError\<close> when
  \<^verbatim>\<open>max_bytes < 1\<close>, and its \<^verbatim>\<open>os.read(fd, max_bytes)\<close> raises \<^verbatim>\<open>OverflowError\<close> when
  \<^verbatim>\<open>max_bytes\<close> does not fit a C \<^verbatim>\<open>ssize_t\<close> (\<open>max_bytes \<ge> 2\<^sup>6\<^sup>3\<close>); neither reads the
  descriptor. A failure that depends on the machine (\<^verbatim>\<open>MemoryError\<close> for a buffer that
  cannot be allocated) is an exception held by the stream.
\<close>

datatype rd_event = Chunk "byte list" | Fault exc

record fdstream =
  pending :: "rd_event list"
  reads :: nat

fun receive_pending :: "nat \<Rightarrow> rd_event list \<Rightarrow> (exc + byte list) \<times> rd_event list" where
  "receive_pending m [] = (Inr [], [])"
| "receive_pending m (Fault e # evs) = (Inl e, evs)"
| "receive_pending m (Chunk bs # evs) =
     (if bs = [] then receive_pending m evs
      else if length bs \<le> m then (Inr bs, evs)
      else (Inr (take m bs), Chunk (drop m bs) # evs))"

definition receive_some :: "int \<Rightarrow> fdstream \<Rightarrow> (exc + byte list) \<times> fdstream" where
  "receive_some max_bytes s =
     (if max_bytes < 1 then (Inl (Exc ValueError ''max_bytes must be integer >= 1''), s)
      else if max_bytes \<ge> 2 ^ 63 then
        (Inl (Exc (OtherError ''OverflowError'') ''Python int too large to convert to C ssize_t''), s)
      else case receive_pending (nat max_bytes) (pending s) of
             (r, evs) \<Rightarrow> (r, \<lparr>pending = evs, reads = Suc (reads s)\<rparr>))"

text \<open>
  \<^verbatim>\<open>
  async def _recv_exactly(self, size):
      result_bytes = bytearray()
      while size:
          partial_result = await self._recv_stream.receive_some(size)
          num_recvd = len(partial_result)
          if not num_recvd:
              raise trio.EndOfChannel("got end of file during message")
          result_bytes.extend(partial_result)
          if num_recvd > size:
              raise RuntimeError("Oversized response")
          else:
              size -= num_recvd
      return result_bytes
  \<close>
  The loop is \<open>recv_exactly_loop\<close>, with the loop variables \<^verbatim>\<open>size\<close> and
  \<^verbatim>\<open>result_bytes\<close> as arguments. Each turn that does not raise receives at least one
  byte and at most \<^verbatim>\<open>size\<close>, so \<^verbatim>\<open>size\<close> decreases and stays non-negative.
\<close>

function recv_exactly_loop ::
  "int \<Rightarrow> byte list \<Rightarrow> fdstream \<Rightarrow> (exc + byte list) \<times> fdstream" where
  "recv_exactly_loop sz result_bytes s =
     (if sz = 0 then (Inr result_bytes, s)
      else case receive_some sz s of
             (Inl e, s') \<Rightarrow> (Inl e, s')
           | (Inr partial_result, s') \<Rightarrow>
               let num_recvd = int (length partial_result) in
               if num_recvd = 0 then
                 (Inl (Exc EndOfChannel ''got end of file during message''), s')
               else if num_recvd > sz then (Inl (Exc RuntimeError ''Oversized response''), s')
               else recv_exactly_loop (sz - num_recvd) (result_bytes @ partial_result) s')"
  by pat_completeness auto
termination
  by (relation "measure (\<lambda>(sz, result_bytes, s). nat sz)")
     (auto simp: neq_Nil_conv)

declare recv_exactly_loop.simps [simp del]

definition recv_exactly :: "int \<Rightarrow> fdstream \<Rightarrow> (exc + byte list) \<times> fdstream" where
  "recv_exactly sz s = recv_exactly_loop sz [] s"

text \<open>
  \<^verbatim>\<open>
  async def _recv(self):
      buf = await self._recv_exactly(4)
      (size,) = struct.unpack("!i", buf)
      if size == -1:
          buf = await self._recv_exactly(8)
          (size,) = struct.unpack("!Q", buf)
      return await self._recv_exactly(size)
  \<close>
\<close>

definition recv :: "fdstream \<Rightarrow> (exc + byte list) \<times> fdstream" where
  "recv s =
     (case recv_exactly 4 s of
        (Inl e, s1) \<Rightarrow> (Inl e, s1)
      | (Inr buf, s1) \<Rightarrow>
          (case unpack_i buf of
             Inl e \<Rightarrow> (Inl e, s1)
           | Inr sz \<Rightarrow>
               if sz = - 1 then
                 (case recv_exactly 8 s1 of
                    (Inl e, s2) \<Rightarrow> (Inl e, s2)
                  | (Inr buf8, s2) \<Rightarrow>
                      (case unpack_Q buf8 of
                         Inl e \<Rightarrow> (Inl e, s2)
                       | Inr size8 \<Rightarrow> recv_exactly size8 s2))
               else recv_exactly sz s1))"

text \<open>
  The bytes a receiving stream will deliver before end of file, when it holds no
  exception: the concatenation of its chunks, however they are cut.
\<close>

fun wire_bytes :: "rd_event list \<Rightarrow> byte list option" where
  "wire_bytes [] = Some []"
| "wire_bytes (Chunk bs # evs) = map_option ((@) bs) (wire_bytes evs)"
| "wire_bytes (Fault e # evs) = None"

text \<open>
  The bytes of one message on the wire: what \<open>send\<close> writes for \<open>buf\<close>, write after
  write.
\<close>

definition framed :: "byte list \<Rightarrow> byte list" where
  "framed buf = concat (writes (snd (send buf \<lparr>writes = [], wfault = None\<rparr>)))"

subsection \<open>Python values, jobs and result envelopes\<close>

text \<open>
  The values that cross the pipes. \<open>PValue\<close> and \<open>PError\<close> are the two classes of the
  \<^verbatim>\<open>outcome\<close> library (\<^verbatim>\<open>outcome.Value\<close>, \<^verbatim>\<open>outcome.Error\<close>); \<open>PCoroutine\<close> is a coroutine
  object, what calling an \<^verbatim>\<open>async def\<close> function returns. A job is the pair
  \<^verbatim>\<open>(sync_fn, args)\<close>: calling \<^verbatim>\<open>sync_fn(*args)\<close> returns a value or raises.
  \<open>qualname\<close> is \<^verbatim>\<open>sync_fn.__qualname__\<close> where the callable has one, \<open>fn_repr\<close> is
  \<^verbatim>\<open>repr(sync_fn)\<close>.
\<close>

datatype pyval = PNone | PInt int | PStr string | PCoroutine | PValue pyval | PError exc

record job =
  sync_fn :: "pyval list \<Rightarrow> exc + pyval"
  qualname :: "string option"
  fn_repr :: string
  args :: "pyval list"

text \<open>
  \<open>quoted s\<close> is \<open>s\<close> between single quotes, as \<^verbatim>\<open>repr\<close> shows a plain string.
  \<^verbatim>\<open>outcome.capture(f, *args)\<close> returns \<^verbatim>\<open>Value(f(*args))\<close>, or \<^verbatim>\<open>Error(exc)\<close> when the call
  raises; \<^verbatim>\<open>unwrap()\<close> returns the value of a \<^verbatim>\<open>Value\<close> and raises the exception of an
  \<^verbatim>\<open>Error\<close>. Any other object has no attribute \<^verbatim>\<open>unwrap\<close>.
\<close>

definition quoted :: "string \<Rightarrow> string" where
  "quoted s = CHR 0x27 # s @ [CHR 0x27]"

definition capture :: "exc + pyval \<Rightarrow> pyval" where
  "capture r = (case r of Inr v \<Rightarrow> PValue v | Inl e \<Rightarrow> PError e)"

fun type_name :: "pyval \<Rightarrow> string" where
  "type_name PNone = ''NoneType''"
| "type_name (PInt i) = ''int''"
| "type_name (PStr s) = ''str''"
| "type_name PCoroutine = ''coroutine''"
| "type_name (PValue v) = ''Value''"
| "type_name (PError e) = ''Error''"

fun unwrap :: "pyval \<Rightarrow> exc + pyval" where
  "unwrap (PValue v) = Inr v"
| "unwrap (PError e) = Inl e"
| "unwrap v =
     Inl (Exc AttributeError
            (quoted (type_name v) @ '' object has no attribute '' @ quoted ''unwrap''))"

subsection \<open>The worker process (\<^verbatim>\<open>WorkerProcBase._work\<close>)\<close>

text \<open>
  What the worker does to its surroundings, in order: a wait on the barrier with a
  timeout, a receive on its pipe, the closing of a coroutine object, a send on its pipe.
\<close>

datatype action = BarrierWait real | PipeRecv | CoroutineClose | PipeSend pyval

text \<open>
  \<^verbatim>\<open>
  IDLE_TIMEOUT = 60 * 10
  \<close>
\<close>

definition IDLE_TIMEOUT :: real where
  "IDLE_TIMEOUT = 60 * 10"

text \<open>
  \<^verbatim>\<open>
  def coroutine_checker(fn, args):
      ret = fn(*args)
      if inspect.iscoroutine(ret):
          ret.close()
          raise TypeError(
              "trio-parallel worker expected a sync function, but {!r} appears "
              "to be asynchronous".format(getattr(fn, "__qualname__", fn))
          )
      return ret
  \<close>
  \<^verbatim>\<open>{!r}\<close> formats the qualified name, a string, in quotes, and a callable without one
  by its \<^verbatim>\<open>repr\<close>.
\<close>

definition async_message :: "job \<Rightarrow> string" where
  "async_message j =
     ''trio-parallel worker expected a sync function, but '' @
     (case qualname j of Some q \<Rightarrow> quoted q | None \<Rightarrow> fn_repr j) @
     '' appears to be asynchronous''"

definition coroutine_checker :: "job \<Rightarrow> action list \<times> (exc + pyval)" where
  "coroutine_checker j =
     (case sync_fn j (args j) of
        Inl e \<Rightarrow> ([], Inl e)
      | Inr ret \<Rightarrow>
          if ret = PCoroutine then ([CoroutineClose], Inl (Exc TypeError (async_message j)))
          else ([], Inr ret))"

text \<open>
  \<^verbatim>\<open>
  def _work(barrier, recv_pipe, send_pipe):
      ...
      while True:
          try:
              barrier.wait(timeout=IDLE_TIMEOUT)
          except BrokenBarrierError:
              return
          fn, args = recv_pipe.recv()
          result = outcome.capture(coroutine_checker, fn, args)
          send_pipe.send(result)
          del fn
          del args
          del result
  \<close>
  The worker's surroundings decide each turn of the loop: the barrier breaks (the wait
  timed out or the barrier was aborted), or the worker is woken and then
  \<^verbatim>\<open>recv_pipe.recv()\<close> raises, or it delivers a job, whose result \<^verbatim>\<open>send_pipe.send\<close> accepts
  or refuses with an exception. The worker ends by returning (exit code 0) or by an
  uncaught exception (exit code 1); when the list of turns is used up it is parked at
  the barrier.
\<close>

datatype turn = BarrierBroken | RecvFails exc | Job job "exc option"

datatype exit = Returned | Raised exc | Waiting

fun work :: "turn list \<Rightarrow> action list \<times> exit" where
  "work [] = ([BarrierWait IDLE_TIMEOUT], Waiting)"
| "work (BarrierBroken # ts) = ([BarrierWait IDLE_TIMEOUT], Returned)"
| "work (RecvFails e # ts) = ([BarrierWait IDLE_TIMEOUT, PipeRecv], Raised e)"
| "work (Job j send_fault # ts) =
     (let (closing, r) = coroutine_checker j;
          result = capture r;
          acts = [BarrierWait IDLE_TIMEOUT, PipeRecv] @ closing @ [PipeSend result]
      in case send_fault of
           Some e \<Rightarrow> (acts, Raised e)
         | None \<Rightarrow> (let (rest, x) = work ts in (acts @ rest, x)))"

fun exitcode :: "exit \<Rightarrow> int option" where
  "exitcode Returned = Some 0"
| "exitcode (Raised e) = Some 1"
| "exitcode Waiting = None"

text \<open>The timeouts of the barrier waits among the worker's actions, in order.\<close>

fun wait_timeouts :: "action list \<Rightarrow> real list" where
  "wait_timeouts [] = []"
| "wait_timeouts (BarrierWait t # acts) = t # wait_timeouts acts"
| "wait_timeouts (a # acts) = wait_timeouts acts"

text \<open>The result envelope the worker sends back for a job.\<close>

definition worker_reply :: "job \<Rightarrow> pyval" where
  "worker_reply j = capture (snd (coroutine_checker j))"

subsection \<open>The worker handle (\<^verbatim>\<open>WorkerProcBase.run_sync\<close>, \<^verbatim>\<open>kill\<close>)\<close>

text \<open>
  A handle is known by its identity; \<open>proc_str\<close> is \<^verbatim>\<open>str(self._proc)\<close>. What a call of
  \<^verbatim>\<open>run_sync\<close> meets is given by \<open>host_io\<close>: the number of parties waiting at the
  barrier, the result of \<^verbatim>\<open>ForkingPickler.dumps((sync_fn, args))\<close>, the two streams, and
  \<^verbatim>\<open>ForkingPickler.loads\<close>. The codec is a black box.

  \<^verbatim>\<open>
  def kill(self):
      self._barrier.abort()
      try:
          self._proc.kill()
      except AttributeError:
          self._proc.terminate()

  async def run_sync(self, sync_fn, *args):
      assert not self._barrier.n_waiting, "Must first wake_up() the worker"
      try:
          await self._send(ForkingPickler.dumps((sync_fn, args)))
          result = ForkingPickler.loads(await self._recv())
      except trio.EndOfChannel:
          self.kill()
          raise BrokenWorkerError(f"{self._proc} died unexpectedly")
      except BaseException:
          self.kill()
          raise
      else:
          return result.unwrap()
  \<close>
  \<open>send_and_receive\<close> is the body of the \<^verbatim>\<open>try\<close> statement. The model returns what
  \<^verbatim>\<open>run_sync\<close> returns or raises, and whether it called \<^verbatim>\<open>kill\<close>.
\<close>

record handle =
  hid :: nat
  proc_str :: string

record host_io =
  n_waiting :: nat
  pickled :: "exc + byte list"
  send_stream :: wstream
  recv_stream :: fdstream
  loads :: "byte list \<Rightarrow> exc + pyval"

definition send_and_receive :: "host_io \<Rightarrow> exc + pyval" where
  "send_and_receive hio =
     (case pickled hio of
        Inl e \<Rightarrow> Inl e
      | Inr buf \<Rightarrow>
          (case fst (send buf (send_stream hio)) of
             Inl e \<Rightarrow> Inl e
           | Inr _ \<Rightarrow>
               (case fst (recv (recv_stream hio)) of
                  Inl e \<Rightarrow> Inl e
                | Inr data \<Rightarrow> loads hio data)))"

definition proc_run_sync :: "handle \<Rightarrow> host_io \<Rightarrow> (exc + pyval) \<times> bool" where
  "proc_run_sync h hio =
     (if n_waiting hio \<noteq> 0 then
        (Inl (Exc AssertionError ''Must first wake_up() the worker''), False)
      else case send_and_receive hio of
             Inl e \<Rightarrow>
               if kind e = EndOfChannel then
                 (Inl (Exc BrokenWorkerError (proc_str h @ '' died unexpectedly'')), True)
               else (Inl e, True)
           | Inr result \<Rightarrow> (unwrap result, False))"

text \<open>
  A call that is served with \<open>reply\<close>: the worker is parked behind the barrier, the
  job pickles into a byte string, the sending stream is healthy, and the receiving
  stream delivers, in any chunking and after any number of earlier reads, the frame of
  \<open>reply_bytes\<close> (followed by anything), which \<^verbatim>\<open>ForkingPickler.loads\<close> decodes to
  \<open>reply\<close>. The frame is the wire format of \<^verbatim>\<open>multiprocessing.Connection.send\<close>, which
  \<^verbatim>\<open>_send\<close> reproduces.
\<close>

definition served_with :: "host_io \<Rightarrow> byte list \<Rightarrow> pyval \<Rightarrow> bool" where
  "served_with hio reply_bytes reply \<longleftrightarrow>
     n_waiting hio = 0 \<and>
     (case pickled hio of Inr request \<Rightarrow> length request < 2 ^ 63 | Inl e \<Rightarrow> False) \<and>
     wfault (send_stream hio) = None \<and>
     (case wire_bytes (pending (recv_stream hio)) of
        Some bs \<Rightarrow> take (length (framed reply_bytes)) bs = framed reply_bytes
      | None \<Rightarrow> False) \<and>
     length reply_bytes < 2 ^ 63 \<and>
     loads hio reply_bytes = Inr reply"

subsection \<open>The default limiter (\<^verbatim>\<open>current_default_worker_limiter\<close>)\<close>

text \<open>
  \<^verbatim>\<open>
  DEFAULT_LIMIT = os.cpu_count() or 1
  _limiter_local = trio.lowlevel.RunVar("proc_limiter")

  def current_default_worker_limiter():
      try:
          return _limiter_local.get()
      except LookupError:
          limiter = trio.CapacityLimiter(DEFAULT_LIMIT)
          _limiter_local.set(limiter)
          return limiter
  \<close>
  \<^verbatim>\<open>os.cpu_count()\<close> returns a number or \<^verbatim>\<open>None\<close>. A \<^verbatim>\<open>RunVar\<close> is local to one call of
  \<^verbatim>\<open>trio.run\<close> and unset when the run starts. Limiter objects live in a store: an
  object is its index there, and the store holds its \<^verbatim>\<open>total_tokens\<close>.
\<close>

definition DEFAULT_LIMIT :: "nat option \<Rightarrow> nat" where
  "DEFAULT_LIMIT cpu_count =
     (case cpu_count of None \<Rightarrow> 1 | Some n \<Rightarrow> if n = 0 then 1 else n)"

record run_state =
  limiter_local :: "nat option"
  limiters :: "nat list"

definition current_default_worker_limiter :: "nat option \<Rightarrow> run_state \<Rightarrow> nat \<times> run_state" where
  "current_default_worker_limiter cpu_count st =
     (case limiter_local st of
        Some limiter \<Rightarrow> (limiter, st)
      | None \<Rightarrow>
          let limiter = length (limiters st)
          in (limiter,
              st\<lparr>limiters := limiters st @ [DEFAULT_LIMIT cpu_count],
                 limiter_local := Some limiter\<rparr>))"

text \<open>\<open>n\<close> calls in a row within one run, and the objects they return.\<close>

fun limiter_calls :: "nat option \<Rightarrow> nat \<Rightarrow> run_state \<Rightarrow> nat list \<times> run_state" where
  "limiter_calls cpu_count 0 st = ([], st)"
| "limiter_calls cpu_count (Suc n) st =
     (let (limiter, st') = current_default_worker_limiter cpu_count st;
          (rest, st'') = limiter_calls cpu_count n st'
      in (limiter # rest, st''))"

subsection \<open>The worker context and \<^verbatim>\<open>cache_scope\<close>\<close>

text \<open>
  \<^verbatim>\<open>WorkerType\<close> is an enumeration built from the keys of \<^verbatim>\<open>WORKER_PROC_MAP\<close>, a table
  that is not among the sources; its members are taken from the docstring of
  \<^verbatim>\<open>WorkerType\<close> (\<^verbatim>\<open>SPAWN\<close>, \<^verbatim>\<open>FORKSERVER\<close>, \<^verbatim>\<open>FORK\<close>). The arguments of \<^verbatim>\<open>cache_scope\<close> are
  Python objects: \<^verbatim>\<open>worker_type\<close> is a member of the enumeration or some other object,
  \<^verbatim>\<open>retire\<close> is callable or not, \<^verbatim>\<open>idle_timeout\<close> is a number (a \<^verbatim>\<open>float\<close> by the
  docstring). A callable \<^verbatim>\<open>retire\<close> is the answers of its successive calls.

  \<^verbatim>\<open>
  async def cache_scope(idle_timeout=..., retire=..., worker_type=WorkerType.SPAWN):
      if not isinstance(worker_type, WorkerType):
          raise ValueError("worker_type must be a member of WorkerType")
      elif idle_timeout < 0:
          raise ValueError("idle_timeout must be non-negative")
      elif not callable(retire):
          raise ValueError("retire must be callable (with no arguments)")
      worker_class, worker_cache = WORKER_MAP[worker_type]
      worker_context = WorkerContext(idle_timeout, retire, worker_class, worker_cache())
      token = _worker_context_var.set(worker_context)
      ...
  \<close>
  The model is the entry of the scope, up to the \<^verbatim>\<open>yield\<close>: the exception raised or
  the context that is bound, and what the entry did, in order: the call
  \<^verbatim>\<open>worker_cache()\<close> creates the scope's cache, \<^verbatim>\<open>_worker_context_var.set\<close> binds the
  context. No statement of the entry constructs a worker; workers are constructed by
  \<^verbatim>\<open>run_sync\<close>.
\<close>

datatype WorkerType = SPAWN | FORKSERVER | FORK

datatype worker_type_arg = Member WorkerType | NotMember pyval

datatype retire_arg = Callable "nat \<Rightarrow> bool" | NotCallable pyval

record worker_context =
  idle_timeout :: real
  retire :: "nat \<Rightarrow> bool"
  worker_class :: WorkerType
  worker_cache :: "handle list"

datatype scope_event = CacheCreated | ContextBound

definition cache_scope ::
  "real \<Rightarrow> retire_arg \<Rightarrow> worker_type_arg \<Rightarrow> (exc + worker_context) \<times> scope_event list" where
  "cache_scope timeout retire_obj worker_type =
     (case worker_type of
        NotMember obj \<Rightarrow>
          (Inl (Exc ValueError ''worker_type must be a member of WorkerType''), [])
      | Member wt \<Rightarrow>
          if timeout < 0 then (Inl (Exc ValueError ''idle_timeout must be non-negative''), [])
          else (case retire_obj of
                  NotCallable obj \<Rightarrow>
                    (Inl (Exc ValueError ''retire must be callable (with no arguments)''), [])
                | Callable r \<Rightarrow>
                    (Inr \<lparr>idle_timeout = timeout, retire = r, worker_class = wt,
                          worker_cache = []\<rparr>,
                     [CacheCreated, ContextBound])))"

subsection \<open>The dispatcher (\<^verbatim>\<open>run_sync\<close> of \<^verbatim>\<open>_impl.py\<close>)\<close>

text \<open>
  \<^verbatim>\<open>
  async def run_sync(sync_fn, *args, cancellable=False, limiter=None):
      if limiter is None:
          limiter = current_default_worker_limiter()
      ctx = _worker_context_var.get()
      async with limiter:
          ctx.worker_cache.prune()
          result = None
          while result is None:
              await trio.lowlevel.checkpoint_if_cancelled()
              try:
                  proc = ctx.worker_cache.pop()
              except IndexError:
                  proc = ctx.worker_class(ctx.idle_timeout, ctx.retire)
              with trio.CancelScope(shield=not cancellable):
                  result = await proc.run_sync(sync_fn, *args)
      ctx.worker_cache.append(proc)
      return result.unwrap()
  \<close>
  The state the dispatcher works on is the cache of the context and the record of the
  handles killed. The worker class and the cache class of a context come from
  \<^verbatim>\<open>WORKER_PROC_MAP\<close>, a table that is not among the sources. The cache operations the
  dispatcher calls are taken to be those of \<^verbatim>\<open>ProcCache\<close>, the cache of the sources
  (\<^verbatim>\<open>append\<close> is the deque's append, which \<open>push\<close> performs); the handle a constructor
  call returns is given by the surroundings, and its \<^verbatim>\<open>run_sync\<close> is that of
  \<^verbatim>\<open>WorkerProcBase\<close>, the handle of the sources. Each turn of the loop meets an
  \<open>attempt\<close>: whether the checkpoint raises \<^verbatim>\<open>Cancelled\<close>, the handle a constructor call
  returns, and what \<^verbatim>\<open>proc.run_sync\<close> meets (the job enters there: \<open>pickled\<close> is its
  pickle, and the receiving stream carries the worker's reply to it). The limiter only
  delays the body and the cancel scope only decides which exceptions the runtime may
  raise inside \<^verbatim>\<open>proc.run_sync\<close>; both are left to the surroundings. The loop can go on
  for ever (a job that returns \<^verbatim>\<open>None\<close> is run again), so the list of attempts is its
  fuel: when the list is used up with the loop still running, the result is \<open>None\<close>.
\<close>

record world =
  cache :: "handle list"
  kills :: "handle list"

record attempt =
  cancelled :: bool
  fresh :: handle
  io :: host_io

text \<open>
  The handle of one turn: the \<^verbatim>\<open>try\<close> statement around \<^verbatim>\<open>ctx.worker_cache.pop()\<close>. The
  cache is left as \<open>pop\<close> leaves it.
\<close>

definition acquire :: "(handle \<Rightarrow> bool) \<Rightarrow> attempt \<Rightarrow> handle list \<Rightarrow> handle \<times> handle list" where
  "acquire is_alive a c =
     (case pop is_alive c of
        (Inr proc, c') \<Rightarrow> (proc, c')
      | (Inl e, c') \<Rightarrow> (fresh a, c'))"

fun run_sync_loop ::
  "(handle \<Rightarrow> bool) \<Rightarrow> attempt list \<Rightarrow> world \<Rightarrow> (exc + handle \<times> pyval) option \<times> world" where
  "run_sync_loop is_alive [] w = (None, w)"
| "run_sync_loop is_alive (a # as) w =
     (if cancelled a then (Some (Inl (Exc Cancelled '''')), w)
      else
        let (proc, c') = acquire is_alive a (cache w);
            w1 = w\<lparr>cache := c'\<rparr>
        in case proc_run_sync proc (io a) of
             (Inl e, killed) \<Rightarrow>
               (Some (Inl e), if killed then w1\<lparr>kills := kills w1 @ [proc]\<rparr> else w1)
           | (Inr result, killed) \<Rightarrow>
               if result = PNone then run_sync_loop is_alive as w1
               else (Some (Inr (proc, result)), w1))"

definition run_sync ::
  "(handle \<Rightarrow> bool) \<Rightarrow> attempt list \<Rightarrow> world \<Rightarrow> (exc + pyval) option \<times> world" where
  "run_sync is_alive attempts w =
     (case run_sync_loop is_alive attempts (w\<lparr>cache := prune is_alive (cache w)\<rparr>) of
        (None, w') \<Rightarrow> (None, w')
      | (Some (Inl e), w') \<Rightarrow> (Some (Inl e), w')
      | (Some (Inr (proc, result)), w') \<Rightarrow>
          (Some (unwrap result), w'\<lparr>cache := push (cache w') proc\<rparr>))"

subsection \<open>Example jobs\<close>

text \<open>
  \<^verbatim>\<open>square(7)\<close> for a synchronous \<^verbatim>\<open>def square(x): return x * x\<close>, and \<^verbatim>\<open>fetch()\<close> for an
  \<^verbatim>\<open>async def fetch()\<close>, whose call returns a coroutine object.
\<close>

definition square :: job where
  "square =
     \<lparr>sync_fn = (\<lambda>xs. case xs of
                        [PInt x] \<Rightarrow> Inr (PInt (x * x))
                      | _ \<Rightarrow> Inl (Exc TypeError ''unsupported operand'')),
      qualname = Some ''square'',
      fn_repr = ''<function square>'',
      args = [PInt 7]\<rparr>"


text \<open>
  What a call for \<^verbatim>\<open>square(7)\<close> meets when it is served: the stream already carried an
  earlier message, the reply arrives in two chunks, and the codec decodes the reply's
  bytes to the envelope the worker sent. And what a call meets when the worker dies
  after two bytes of a five-byte reply, and when the caller is cancelled while sending.
\<close>

definition square_io :: host_io where
  "square_io =
     \<lparr>n_waiting = 0, pickled = Inr [1, 2],
      send_stream = \<lparr>writes = [[0, 0, 0, 1, 5]], wfault = None\<rparr>,
      recv_stream = \<lparr>pending = [Chunk [0, 0, 0], Chunk [1, 7]], reads = 3\<rparr>,
      loads = (\<lambda>b. if b = [7] then Inr (PValue (PInt 49))
                     else Inl (Exc (OtherError ''UnpicklingError'') ''''))\<rparr>"

definition died_io :: host_io where
  "died_io =
     \<lparr>n_waiting = 0, pickled = Inr [1, 2],
      send_stream = \<lparr>writes = [], wfault = None\<rparr>,
      recv_stream = \<lparr>pending = [Chunk [0, 0, 0, 5, 1, 2]], reads = 0\<rparr>,
      loads = (\<lambda>b. Inl (Exc (OtherError ''UnpicklingError'') ''''))\<rparr>"

definition cancelled_io :: host_io where
  "cancelled_io =
     \<lparr>n_waiting = 0, pickled = Inr [1, 2],
      send_stream = \<lparr>writes = [], wfault = Some (Exc Cancelled '''')\<rparr>,
      recv_stream = \<lparr>pending = [], reads = 0\<rparr>,
      loads = (\<lambda>b. Inl (Exc (OtherError ''UnpicklingError'') ''''))\<rparr>"

section \<open>Properties\<close>

subsection \<open>The worker cache\<close>

lemma pop_empty:
  "pop is_alive [] = (Inl (Exc IndexError ''pop from an empty deque''), [])"
  by (subst pop.simps) simp

lemma pop_snoc_live: "is_alive h \<Longrightarrow> pop is_alive (c @ [h]) = (Inr h, c)"
  by (subst pop.simps) simp

lemma pop_snoc_dead: "\<not> is_alive d \<Longrightarrow> pop is_alive (c @ [d]) = pop is_alive c"
  by (subst pop.simps) simp

lemma pop_dead_suffix:
  "\<forall>d\<in>set dead. \<not> is_alive d \<Longrightarrow> pop is_alive (c @ dead) = pop is_alive c"
proof (induction dead rule: rev_induct)
  case Nil
  then show ?case by simp
next
  case (snoc d dead)
  have "pop is_alive ((c @ dead) @ [d]) = pop is_alive (c @ dead)"
    using snoc.prems by (intro pop_snoc_dead) simp
  with snoc show ?case by simp
qed

lemma foldl_push: "foldl push c hs = c @ hs"
  by (induction hs arbitrary: c) (simp_all add: push_def)

text \<open>
  C7. Let the cache hold \<open>older\<close>, then \<open>h\<close> is pushed, then the handles \<open>dead\<close> are
  pushed. If \<open>h\<close> is alive and every handle pushed after it is dead, \<open>pop\<close> returns
  \<open>h\<close>, the most recently pushed live handle, and leaves exactly \<open>older\<close>: \<open>h\<close> is
  removed and the dead handles above it are dropped without being returned. If the
  cache is empty, or holds only dead handles and so becomes empty during the scan,
  \<open>pop\<close> raises \<^verbatim>\<open>IndexError\<close> and leaves the cache empty.
\<close>

theorem pop_most_recent_live:
  "(is_alive h \<and> (\<forall>d\<in>set dead. \<not> is_alive d) \<longrightarrow>
      pop is_alive (foldl push older (h # dead)) = (Inr h, older)) \<and>
   ((\<forall>d\<in>set dead. \<not> is_alive d) \<longrightarrow>
      (\<exists>msg. pop is_alive (foldl push [] dead) = (Inl (Exc IndexError msg), [])))"
proof (intro conjI impI)
  assume live: "is_alive h \<and> (\<forall>d\<in>set dead. \<not> is_alive d)"
  then have "pop is_alive ((older @ [h]) @ dead) = pop is_alive (older @ [h])"
    by (intro pop_dead_suffix) simp
  moreover have "pop is_alive (older @ [h]) = (Inr h, older)"
    using live by (intro pop_snoc_live) simp
  ultimately show "pop is_alive (foldl push older (h # dead)) = (Inr h, older)"
    by (simp add: foldl_push push_def)
next
  assume "\<forall>d\<in>set dead. \<not> is_alive d"
  then have "pop is_alive ([] @ dead) = pop is_alive []"
    by (rule pop_dead_suffix)
  then show "\<exists>msg. pop is_alive (foldl push [] dead) = (Inl (Exc IndexError msg), [])"
    by (simp add: foldl_push pop_empty)
qed

theorem pop_most_recent_live_witness:
  "pop (\<lambda>p. p \<noteq> (2::nat) \<and> p \<noteq> 4) (foldl push [1, 2] [3, 4, 2]) = (Inr 3, [1, 2]) \<and>
   (\<exists>msg. pop (\<lambda>p. p \<noteq> (2::nat) \<and> p \<noteq> 4) (foldl push [] [4, 2]) = (Inl (Exc IndexError msg), []))"
  using pop_most_recent_live [of "\<lambda>p. p \<noteq> (2::nat) \<and> p \<noteq> 4" 3 "[4, 2]" "[1, 2]"]
  by simp

subsection \<open>The framed pipe channel\<close>

lemma be_bytes_4:
  "be_bytes 4 m = [word_of_int (m div 16777216 mod 256), word_of_int (m div 65536 mod 256),
                   word_of_int (m div 256 mod 256), word_of_int (m mod 256)]"
  by (simp add: eval_nat_numeral zdiv_zmult2_eq [symmetric])

lemma length_be_bytes: "length (be_bytes k m) = k"
  by (induction k arbitrary: m) simp_all

lemma be_value_snoc: "be_value (bs @ [b]) = be_value bs * 256 + uint b"
  by (simp add: be_value_def)

lemma be_value_be_bytes: "0 \<le> m \<Longrightarrow> m < 256 ^ k \<Longrightarrow> be_value (be_bytes k m) = m"
proof (induction k arbitrary: m)
  case 0
  then show ?case by (simp add: be_value_def)
next
  case (Suc k)
  have "m div 256 < 256 ^ k" using Suc.prems by (simp add: div_less_iff_less_mult mult.commute)
  moreover have "0 \<le> m div 256" using Suc.prems by simp
  ultimately have "be_value (be_bytes k (m div 256)) = m div 256" by (rule Suc.IH[rotated])
  moreover have "uint (word_of_int (m mod 256) :: byte) = m mod 256"
    by (simp add: uint_word_of_int)
  ultimately show ?case by (simp add: be_value_snoc)
qed

lemma pack_i_minus_one: "pack_i (- 1) = Inr [255, 255, 255, 255]"
  by (simp add: pack_i_def be_bytes_4)

lemma unpack_i_pack_i:
  assumes "0 \<le> n" "n \<le> 2 ^ 31 - 1"
  shows "pack_i n = Inr (be_bytes 4 n)" and "unpack_i (be_bytes 4 n) = Inr n"
proof -
  from assms have "n mod 2 ^ 32 = n" by simp
  with assms show "pack_i n = Inr (be_bytes 4 n)" by (simp add: pack_i_def)
  from assms have "be_value (be_bytes 4 n) = n" by (intro be_value_be_bytes) simp_all
  with assms show "unpack_i (be_bytes 4 n) = Inr n"
    by (simp add: unpack_i_def length_be_bytes)
qed

lemma unpack_Q_pack_Q:
  assumes "0 \<le> n" "n \<le> 2 ^ 64 - 1"
  shows "pack_Q n = Inr (be_bytes 8 n)" and "unpack_Q (be_bytes 8 n) = Inr n"
proof -
  from assms show "pack_Q n = Inr (be_bytes 8 n)" by (simp add: pack_Q_def)
  from assms have "be_value (be_bytes 8 n) = n" by (intro be_value_be_bytes) simp_all
  then show "unpack_Q (be_bytes 8 n) = Inr n"
    by (simp add: unpack_Q_def length_be_bytes)
qed

lemma receive_pending_chunks:
  "wire_bytes evs = Some bs \<Longrightarrow> bs \<noteq> [] \<Longrightarrow> 0 < m \<Longrightarrow>
   \<exists>p evs' rest. receive_pending m evs = (Inr p, evs') \<and> p \<noteq> [] \<and> length p \<le> m \<and>
     bs = p @ rest \<and> wire_bytes evs' = Some rest"
proof (induction m evs arbitrary: bs rule: receive_pending.induct)
  case (1 m)
  then show ?case by simp
next
  case (2 m e evs)
  then show ?case by simp
next
  case (3 m c evs)
  from "3.prems" obtain bs0 where bs0: "wire_bytes evs = Some bs0" "bs = c @ bs0"
    by auto
  show ?case
  proof (cases "c = []")
    case True
    with "3.IH" [of bs] "3.prems" bs0 show ?thesis by simp
  next
    case False
    show ?thesis
    proof (cases "length c \<le> m")
      case True
      with False bs0 show ?thesis by simp
    next
      case long: False
      have "bs = take m c @ (drop m c @ bs0)" using bs0 by simp
      with False long bs0 "3.prems" show ?thesis by simp
    qed
  qed
qed

lemma receive_pending_eof:
  "wire_bytes evs = Some [] \<Longrightarrow> receive_pending m evs = (Inr [], [])"
  by (induction m evs rule: receive_pending.induct) auto

lemma recv_exactly_loop_zero: "recv_exactly_loop 0 acc s = (Inr acc, s)"
  by (rule trans [OF recv_exactly_loop.simps]) simp

lemma recv_exactly_loop_step:
  "sz \<noteq> 0 \<Longrightarrow> receive_some sz s = (Inr p, s') \<Longrightarrow> p \<noteq> [] \<Longrightarrow> int (length p) \<le> sz \<Longrightarrow>
   recv_exactly_loop sz acc s = recv_exactly_loop (sz - int (length p)) (acc @ p) s'"
  by (rule trans [OF recv_exactly_loop.simps]) (simp add: Let_def)

lemma recv_exactly_loop_eof_step:
  "sz \<noteq> 0 \<Longrightarrow> receive_some sz s = (Inr [], s') \<Longrightarrow>
   recv_exactly_loop sz acc s = (Inl (Exc EndOfChannel ''got end of file during message''), s')"
  by (rule trans [OF recv_exactly_loop.simps]) simp

lemma recv_exactly_loop_fault_step:
  "sz \<noteq> 0 \<Longrightarrow> receive_some sz s = (Inl e, s') \<Longrightarrow>
   recv_exactly_loop sz acc s = (Inl e, s')"
  by (rule trans [OF recv_exactly_loop.simps]) simp
lemma recv_exactly_loop_chunks:
  "wire_bytes (pending s) = Some bs \<Longrightarrow> 0 \<le> sz \<Longrightarrow> sz < 2 ^ 63 \<Longrightarrow> nat sz \<le> length bs \<Longrightarrow>
   \<exists>s'. recv_exactly_loop sz acc s = (Inr (acc @ take (nat sz) bs), s') \<and>
        wire_bytes (pending s') = Some (drop (nat sz) bs)"
proof (induction sz acc s arbitrary: bs rule: recv_exactly_loop.induct)
  case (1 sz acc s)
  show ?case
  proof (cases "sz = 0")
    case True
    with "1.prems" show ?thesis by (simp add: recv_exactly_loop_zero)
  next
    case False
    with "1.prems" have pos: "0 < nat sz" and ne: "bs \<noteq> []" by auto
    from receive_pending_chunks [OF "1.prems"(1) ne pos]
    obtain p evs' rest where p: "receive_pending (nat sz) (pending s) = (Inr p, evs')"
      "p \<noteq> []" "length p \<le> nat sz" "bs = p @ rest" "wire_bytes evs' = Some rest"
      by blast
    define s' where "s' = \<lparr>pending = evs', reads = Suc (reads s)\<rparr>"
    have rs: "receive_some sz s = (Inr p, s')"
      using pos p(1) "1.prems" by (simp add: receive_some_def s'_def)
    have "int (length p) \<noteq> 0" using p(2) by simp
    moreover have "\<not> int (length p) > sz" using p(3) pos by linarith
    ultimately have len: "int (length p) \<noteq> 0" "\<not> int (length p) > sz" .
    have "\<exists>s''. recv_exactly_loop (sz - int (length p)) (acc @ p) s' =
             (Inr ((acc @ p) @ take (nat (sz - int (length p))) rest), s'') \<and>
           wire_bytes (pending s'') = Some (drop (nat (sz - int (length p))) rest)"
    proof (rule "1.IH" [OF False rs [symmetric] refl refl len])
      show "wire_bytes (pending s') = Some rest" using p(5) by (simp add: s'_def)
      show "0 \<le> sz - int (length p)" using len by simp
      show "sz - int (length p) < 2 ^ 63" using "1.prems"(3) by simp
      show "nat (sz - int (length p)) \<le> length rest" using "1.prems" p(3,4) by auto
    qed
    then obtain s'' where s'':
      "recv_exactly_loop (sz - int (length p)) (acc @ p) s' =
         (Inr ((acc @ p) @ take (nat (sz - int (length p))) rest), s'')"
      "wire_bytes (pending s'') = Some (drop (nat (sz - int (length p))) rest)"
      by blast
    have n: "nat (sz - int (length p)) = nat sz - length p" by simp
    have "recv_exactly_loop sz acc s = recv_exactly_loop (sz - int (length p)) (acc @ p) s'"
      using False rs p(2) len(2) by (intro recv_exactly_loop_step) simp_all
    with s'' n p(3,4) show ?thesis by simp
  qed
qed

lemma recv_exactly_chunks:
  "wire_bytes (pending s) = Some bs \<Longrightarrow> 0 \<le> sz \<Longrightarrow> sz < 2 ^ 63 \<Longrightarrow> nat sz \<le> length bs \<Longrightarrow>
   \<exists>s'. recv_exactly sz s = (Inr (take (nat sz) bs), s') \<and>
        wire_bytes (pending s') = Some (drop (nat sz) bs)"
  using recv_exactly_loop_chunks [of s bs sz "[]"] by (simp add: recv_exactly_def)

lemma recv_exactly_loop_eof:
  "wire_bytes (pending s) = Some bs \<Longrightarrow> length bs < nat sz \<Longrightarrow> sz < 2 ^ 63 \<Longrightarrow>
   \<exists>s'. recv_exactly_loop sz acc s =
          (Inl (Exc EndOfChannel ''got end of file during message''), s')"
proof (induction sz acc s arbitrary: bs rule: recv_exactly_loop.induct)
  case (1 sz acc s)
  from "1.prems" have nz: "sz \<noteq> 0" and pos: "0 < nat sz" "\<not> sz < 1" by auto
  show ?case
  proof (cases "bs = []")
    case True
    with "1.prems" have "receive_pending (nat sz) (pending s) = (Inr [], [])"
      by (simp add: receive_pending_eof)
    with pos "1.prems" have eof:
      "receive_some sz s = (Inr [], \<lparr>pending = [], reads = Suc (reads s)\<rparr>)"
      by (simp add: receive_some_def)
    show ?thesis using nz eof by (simp add: recv_exactly_loop_eof_step)
  next
    case ne: False
    from receive_pending_chunks [OF "1.prems"(1) ne pos(1)]
    obtain p evs' rest where p: "receive_pending (nat sz) (pending s) = (Inr p, evs')"
      "p \<noteq> []" "length p \<le> nat sz" "bs = p @ rest" "wire_bytes evs' = Some rest"
      by blast
    define s' where "s' = \<lparr>pending = evs', reads = Suc (reads s)\<rparr>"
    have rs: "receive_some sz s = (Inr p, s')"
      using pos p(1) "1.prems" by (simp add: receive_some_def s'_def)
    have "int (length p) \<noteq> 0" using p(2) by simp
    moreover have "\<not> int (length p) > sz" using p(3) pos by linarith
    ultimately have len: "int (length p) \<noteq> 0" "\<not> int (length p) > sz" .
    have "\<exists>s''. recv_exactly_loop (sz - int (length p)) (acc @ p) s' =
             (Inl (Exc EndOfChannel ''got end of file during message''), s'')"
    proof (rule "1.IH" [OF nz rs [symmetric] refl refl len])
      show "wire_bytes (pending s') = Some rest" using p(5) by (simp add: s'_def)
      show "length rest < nat (sz - int (length p))" using "1.prems" p(3,4) by auto
      show "sz - int (length p) < 2 ^ 63" using "1.prems"(3) by simp
    qed
    moreover
    have "recv_exactly_loop sz acc s = recv_exactly_loop (sz - int (length p)) (acc @ p) s'"
      using nz rs p(2) len(2) by (intro recv_exactly_loop_step) simp_all
    ultimately show ?thesis by simp
  qed
qed

lemma send_each_ok:
  "send_each ds \<lparr>writes = ws, wfault = None\<rparr> = (Inr (), \<lparr>writes = ws @ ds, wfault = None\<rparr>)"
  by (induction ds arbitrary: ws) (simp_all add: send_all_def)

lemma send_small:
  assumes "length buf \<le> 2 ^ 31 - 1"
  shows "send buf \<lparr>writes = ws, wfault = None\<rparr> =
    (Inr (), \<lparr>writes = ws @ (if length buf > 16384 then [be_bytes 4 (int (length buf)), buf]
                               else [be_bytes 4 (int (length buf)) @ buf]),
              wfault = None\<rparr>)"
proof -
  from assms have n: "0 \<le> int (length buf)" "int (length buf) \<le> 2 ^ 31 - 1"
    by simp_all
  then have "\<not> int (length buf) > 0x7FFFFFFF" by simp
  with unpack_i_pack_i(1) [OF n] show ?thesis
    by (simp add: send_def send_each_ok Let_def)
qed

lemma send_large:
  assumes "2 ^ 31 - 1 < length buf" "length buf < 2 ^ 64"
  shows "send buf \<lparr>writes = ws, wfault = None\<rparr> =
    (Inr (), \<lparr>writes = ws @ [[255, 255, 255, 255], be_bytes 8 (int (length buf)), buf],
              wfault = None\<rparr>)"
proof -
  from assms have n: "0 \<le> int (length buf)" "int (length buf) \<le> 2 ^ 64 - 1"
    by simp_all
  from assms(1) have "int (length buf) > 0x7FFFFFFF" by simp
  with unpack_Q_pack_Q(1) [OF n] show ?thesis
    by (simp add: send_def send_each_ok Let_def pack_i_minus_one)
qed

lemma send_appends:
  assumes "length buf < 2 ^ 64"
  shows "\<exists>frame. concat frame = framed buf \<and>
    send buf \<lparr>writes = ws, wfault = None\<rparr> = (Inr (), \<lparr>writes = ws @ frame, wfault = None\<rparr>)"
proof (cases "length buf \<le> 2 ^ 31 - 1")
  case True
  from send_small [OF True, of ws] send_small [OF True, of "[]"] show ?thesis
    by (simp add: framed_def)
next
  case False
  with assms have large: "2 ^ 31 - 1 < length buf" "length buf < 2 ^ 64" by simp_all
  from send_large [OF large, of ws] send_large [OF large, of "[]"] show ?thesis
    by (simp add: framed_def)
qed

lemma framed_small:
  "length buf \<le> 2 ^ 31 - 1 \<Longrightarrow> framed buf = be_bytes 4 (int (length buf)) @ buf"
  using send_small [of buf "[]"] by (simp add: framed_def)

lemma framed_large:
  "2 ^ 31 - 1 < length buf \<Longrightarrow> length buf < 2 ^ 64 \<Longrightarrow>
   framed buf = [255, 255, 255, 255] @ be_bytes 8 (int (length buf)) @ buf"
  using send_large [of buf "[]"] by (simp add: framed_def)

lemma recv_small_frame:
  assumes n: "int (length buf) \<le> 2 ^ 31 - 1"
    and wire: "wire_bytes (pending s) = Some (be_bytes 4 (int (length buf)) @ buf @ rest)"
  shows "\<exists>s'. recv s = (Inr buf, s') \<and> wire_bytes (pending s') = Some rest"
proof -
  let ?n = "int (length buf)"
  from recv_exactly_chunks [OF wire, of 4]
  obtain s1 where s1: "recv_exactly 4 s = (Inr (be_bytes 4 ?n), s1)"
    "wire_bytes (pending s1) = Some (buf @ rest)"
    by (auto simp: length_be_bytes)
  have hdr: "unpack_i (be_bytes 4 ?n) = Inr ?n" using n by (intro unpack_i_pack_i(2)) simp_all
  from n have "?n < 2 ^ 63" by simp
  with recv_exactly_chunks [OF s1(2), of ?n]
  obtain s2 where s2: "recv_exactly ?n s1 = (Inr buf, s2)" "wire_bytes (pending s2) = Some rest"
    by auto
  have "recv s = (Inr buf, s2)" using s1(1) hdr s2(1) by (simp add: recv_def)
  with s2(2) show ?thesis by simp
qed

lemma unpack_i_ff: "unpack_i [255, 255, 255, 255] = Inr (- 1)"
  by (simp add: unpack_i_def be_value_def)

lemma recv_large_frame:
  assumes n: "int (length buf) < 2 ^ 63"
    and wire: "wire_bytes (pending s) =
      Some ([255, 255, 255, 255] @ be_bytes 8 (int (length buf)) @ buf @ rest)"
  shows "\<exists>s'. recv s = (Inr buf, s') \<and> wire_bytes (pending s') = Some rest"
proof -
  let ?n = "int (length buf)"
  from recv_exactly_chunks [OF wire, of 4]
  obtain s1 where s1: "recv_exactly 4 s = (Inr [255, 255, 255, 255], s1)"
    "wire_bytes (pending s1) = Some (be_bytes 8 ?n @ buf @ rest)"
    by auto
  from recv_exactly_chunks [OF s1(2), of 8]
  obtain s2 where s2: "recv_exactly 8 s1 = (Inr (be_bytes 8 ?n), s2)"
    "wire_bytes (pending s2) = Some (buf @ rest)"
    by (auto simp: length_be_bytes)
  have hdr: "unpack_Q (be_bytes 8 ?n) = Inr ?n" using n by (intro unpack_Q_pack_Q(2)) simp_all
  from n recv_exactly_chunks [OF s2(2), of ?n]
  obtain s3 where s3: "recv_exactly ?n s2 = (Inr buf, s3)" "wire_bytes (pending s3) = Some rest"
    by auto
  have "recv s = (Inr buf, s3)"
    using s1(1) unpack_i_ff s2(1) hdr s3(1) by (simp add: recv_def)
  with s3(2) show ?thesis by simp
qed

lemma recv_framed:
  assumes "length buf < 2 ^ 63"
    and "wire_bytes (pending s) = Some (framed buf @ rest)"
  shows "\<exists>s'. recv s = (Inr buf, s') \<and> wire_bytes (pending s') = Some rest"
proof (cases "length buf \<le> 2 ^ 31 - 1")
  case True
  then have "int (length buf) \<le> 2 ^ 31 - 1" by simp
  moreover from assms(2) framed_small [OF True]
  have "wire_bytes (pending s) = Some (be_bytes 4 (int (length buf)) @ buf @ rest)"
    by simp
  ultimately show ?thesis by (rule recv_small_frame)
next
  case False
  with assms(1) have large: "2 ^ 31 - 1 < length buf" "length buf < 2 ^ 64" by simp_all
  from assms(1) have "int (length buf) < 2 ^ 63" by simp
  moreover from assms(2) framed_large [OF large]
  have "wire_bytes (pending s) =
    Some ([255, 255, 255, 255] @ be_bytes 8 (int (length buf)) @ buf @ rest)"
    by simp
  ultimately show ?thesis by (rule recv_large_frame)
qed

text \<open>
  C3. A payload \<open>buf\<close> of \<open>n\<close> bytes is sent on a healthy stream, whatever was written
  on it before (\<open>ws\<close>), by appending to the writes: if \<open>n \<le> 2\<^sup>3\<^sup>1 - 1\<close>, a 4-byte header
  that \<^verbatim>\<open>"!i"\<close> decodes to \<open>n\<close> and the payload (in one write with the header when
  \<open>n \<le> 16384\<close>, in a write of its own otherwise); if \<open>n > 2\<^sup>3\<^sup>1 - 1\<close>, a 4-byte
  pre-header that \<^verbatim>\<open>"!i"\<close> decodes to \<open>-1\<close>, an 8-byte header that \<^verbatim>\<open>"!Q"\<close> decodes to \<open>n\<close>,
  and the payload. The empty payload adds one write holding only the zero header. And
  \<open>recv\<close>, reading a stream that delivers the bytes this send added, in any chunking,
  after any number of earlier reads and followed by any further bytes \<open>rest\<close>, returns
  exactly \<open>buf\<close> and leaves \<open>rest\<close>. The layout is stated for \<open>n < 2\<^sup>6\<^sup>4\<close>, the range of
  \<^verbatim>\<open>"!Q"\<close>; the round trip for \<open>n < 2\<^sup>6\<^sup>3\<close>, the longest read \<^verbatim>\<open>os.read\<close> accepts and
  longer than any Python byte string.
\<close>

theorem framed_send_recv:
  "(length buf \<le> 2 ^ 31 - 1 \<longrightarrow>
      (\<exists>header. length header = 4 \<and> unpack_i header = Inr (int (length buf)) \<and>
         send buf \<lparr>writes = ws, wfault = None\<rparr> =
           (Inr (), \<lparr>writes = ws @ (if length buf > 16384 then [header, buf]
                                     else [header @ buf]),
                     wfault = None\<rparr>))) \<and>
   (2 ^ 31 - 1 < length buf \<and> length buf < 2 ^ 64 \<longrightarrow>
      (\<exists>pre_header header. length pre_header = 4 \<and> unpack_i pre_header = Inr (- 1) \<and>
         length header = 8 \<and> unpack_Q header = Inr (int (length buf)) \<and>
         send buf \<lparr>writes = ws, wfault = None\<rparr> =
           (Inr (), \<lparr>writes = ws @ [pre_header, header, buf], wfault = None\<rparr>))) \<and>
   send [] \<lparr>writes = ws, wfault = None\<rparr> =
     (Inr (), \<lparr>writes = ws @ [[0, 0, 0, 0]], wfault = None\<rparr>) \<and>
   (length buf < 2 ^ 63 \<and>
    wire_bytes (pending s) =
      Some (concat (drop (length ws) (writes (snd (send buf \<lparr>writes = ws, wfault = None\<rparr>))))
            @ rest) \<longrightarrow>
      (\<exists>s'. recv s = (Inr buf, s') \<and> wire_bytes (pending s') = Some rest))"
proof (intro conjI impI)
  assume small: "length buf \<le> 2 ^ 31 - 1"
  then have "0 \<le> int (length buf)" "int (length buf) \<le> 2 ^ 31 - 1" by simp_all
  then have "unpack_i (be_bytes 4 (int (length buf))) = Inr (int (length buf))"
    by (rule unpack_i_pack_i(2))
  with send_small [OF small, of ws]
  show "\<exists>header. length header = 4 \<and> unpack_i header = Inr (int (length buf)) \<and>
         send buf \<lparr>writes = ws, wfault = None\<rparr> =
           (Inr (), \<lparr>writes = ws @ (if length buf > 16384 then [header, buf]
                                     else [header @ buf]),
                     wfault = None\<rparr>)"
    by (intro exI [of _ "be_bytes 4 (int (length buf))"]) (simp add: length_be_bytes)
next
  assume large: "2 ^ 31 - 1 < length buf \<and> length buf < 2 ^ 64"
  then have "0 \<le> int (length buf)" "int (length buf) \<le> 2 ^ 64 - 1" by simp_all
  then have "unpack_Q (be_bytes 8 (int (length buf))) = Inr (int (length buf))"
    by (rule unpack_Q_pack_Q(2))
  with send_large [of buf ws] large unpack_i_ff
  show "\<exists>pre_header header. length pre_header = 4 \<and> unpack_i pre_header = Inr (- 1) \<and>
         length header = 8 \<and> unpack_Q header = Inr (int (length buf)) \<and>
         send buf \<lparr>writes = ws, wfault = None\<rparr> =
           (Inr (), \<lparr>writes = ws @ [pre_header, header, buf], wfault = None\<rparr>)"
    by (intro exI [of _ "[255, 255, 255, 255]"] exI [of _ "be_bytes 8 (int (length buf))"])
       (simp add: length_be_bytes)
next
  show "send [] \<lparr>writes = ws, wfault = None\<rparr> =
     (Inr (), \<lparr>writes = ws @ [[0, 0, 0, 0]], wfault = None\<rparr>)"
    using send_small [of "[]" ws] by (simp add: be_bytes_4)
next
  assume a: "length buf < 2 ^ 63 \<and>
    wire_bytes (pending s) =
      Some (concat (drop (length ws) (writes (snd (send buf \<lparr>writes = ws, wfault = None\<rparr>))))
            @ rest)"
  then have "length buf < 2 ^ 64" by simp
  from send_appends [OF this, of ws] obtain frame where
    "concat frame = framed buf"
    "send buf \<lparr>writes = ws, wfault = None\<rparr> = (Inr (), \<lparr>writes = ws @ frame, wfault = None\<rparr>)"
    by blast
  with a have "wire_bytes (pending s) = Some (framed buf @ rest)" by simp
  with a show "\<exists>s'. recv s = (Inr buf, s') \<and> wire_bytes (pending s') = Some rest"
    by (intro recv_framed) simp_all
qed

theorem framed_send_recv_witness:
  "(\<exists>header. length header = 4 \<and> unpack_i header = Inr 3 \<and>
      send [1, 2, 3] \<lparr>writes = [[0, 0, 0, 1, 7]], wfault = None\<rparr> =
        (Inr (), \<lparr>writes = [[0, 0, 0, 1, 7], header @ [1, 2, 3]], wfault = None\<rparr>)) \<and>
   (\<exists>s'. recv \<lparr>pending = [Chunk [0, 0], Chunk [0, 3, 1], Chunk [], Chunk [2, 3, 9]], reads = 5\<rparr> =
           (Inr [1, 2, 3], s') \<and> wire_bytes (pending s') = Some [9]) \<and>
   (\<exists>pre_header header. length pre_header = 4 \<and> unpack_i pre_header = Inr (- 1) \<and>
      length header = 8 \<and> unpack_Q header = Inr 2147483648 \<and>
      send (replicate 2147483648 0) \<lparr>writes = [[0, 0, 0, 1, 7]], wfault = None\<rparr> =
        (Inr (), \<lparr>writes = [[0, 0, 0, 1, 7], pre_header, header, replicate 2147483648 0],
                  wfault = None\<rparr>))"
proof -
  have small: "send [1, 2, 3] \<lparr>writes = [[0, 0, 0, 1, 7]], wfault = None\<rparr> =
      (Inr (), \<lparr>writes = [[0, 0, 0, 1, 7], [0, 0, 0, 3, 1, 2, 3]], wfault = None\<rparr>)"
    by (simp add: send_def pack_i_def be_bytes_4 send_all_def)
  have c1: "\<exists>header. length header = 4 \<and> unpack_i header = Inr 3 \<and>
      send [1, 2, 3] \<lparr>writes = [[0, 0, 0, 1, 7]], wfault = None\<rparr> =
        (Inr (), \<lparr>writes = [[0, 0, 0, 1, 7], header @ [1, 2, 3]], wfault = None\<rparr>)"
    using framed_send_recv [of "[1, 2, 3]" "[[0, 0, 0, 1, 7]]"] by simp
  have c2: "\<exists>s'. recv \<lparr>pending = [Chunk [0, 0], Chunk [0, 3, 1], Chunk [], Chunk [2, 3, 9]], reads = 5\<rparr> =
           (Inr [1, 2, 3], s') \<and> wire_bytes (pending s') = Some [9]"
    using framed_send_recv [of "[1, 2, 3]" "[[0, 0, 0, 1, 7]]"
        "\<lparr>pending = [Chunk [0, 0], Chunk [0, 3, 1], Chunk [], Chunk [2, 3, 9]], reads = 5\<rparr>" "[9]"]
    by (simp add: small)
  have c3: "\<exists>pre_header header. length pre_header = 4 \<and> unpack_i pre_header = Inr (- 1) \<and>
      length header = 8 \<and> unpack_Q header = Inr 2147483648 \<and>
      send (replicate 2147483648 0) \<lparr>writes = [[0, 0, 0, 1, 7]], wfault = None\<rparr> =
        (Inr (), \<lparr>writes = [[0, 0, 0, 1, 7], pre_header, header, replicate 2147483648 0],
                  wfault = None\<rparr>)"
    using framed_send_recv [of "replicate 2147483648 0" "[[0, 0, 0, 1, 7]]"] by simp
  from c1 c2 c3 show ?thesis by blast
qed

text \<open>
  C10. \<open>recv_exactly 0\<close> returns the empty buffer and leaves the stream as it was, the
  count of \<^verbatim>\<open>receive_some\<close> calls included: no read is performed, whatever the
  stream holds (nothing, a chunk or an exception). So whenever the header of a message
  reads as zero, \<open>recv\<close> returns the empty payload with the stream as the header
  read left it; the payload read cannot raise \<^verbatim>\<open>EndOfChannel\<close>.
\<close>

theorem recv_exactly_zero:
  "recv_exactly 0 s = (Inr [], s) \<and>
   (recv_exactly 4 s = (Inr [0, 0, 0, 0], s1) \<longrightarrow> recv s = (Inr [], s1))"
  by (simp add: recv_def recv_exactly_def recv_exactly_loop_zero unpack_i_def be_value_def)

theorem recv_exactly_zero_witness:
  "recv_exactly 4 \<lparr>pending = [Chunk [0, 0], Chunk [0, 0]], reads = 0\<rparr> =
     (Inr [0, 0, 0, 0], \<lparr>pending = [], reads = 2\<rparr>) \<and>
   recv \<lparr>pending = [Chunk [0, 0], Chunk [0, 0]], reads = 0\<rparr> =
     (Inr [], \<lparr>pending = [], reads = 2\<rparr>)"
proof -
  have h: "recv_exactly 4 \<lparr>pending = [Chunk [0, 0], Chunk [0, 0]], reads = 0\<rparr> =
     (Inr [0, 0, 0, 0], \<lparr>pending = [], reads = 2\<rparr>)"
    by (simp add: recv_exactly_def recv_exactly_loop.simps receive_some_def)
  with recv_exactly_zero [of "\<lparr>pending = [Chunk [0, 0], Chunk [0, 0]], reads = 0\<rparr>"
      "\<lparr>pending = [], reads = 2\<rparr>"]
  show ?thesis by simp
qed

subsection \<open>The worker process\<close>

lemma wait_timeouts_append:
  "wait_timeouts (xs @ ys) = wait_timeouts xs @ wait_timeouts ys"
  by (induction xs rule: wait_timeouts.induct) simp_all

lemma wait_timeouts_closing: "wait_timeouts (fst (coroutine_checker j)) = []"
  by (simp add: coroutine_checker_def split: sum.splits)

lemma work_job:
  "work (Job j None # turns) =
     ([BarrierWait IDLE_TIMEOUT, PipeRecv] @ fst (coroutine_checker j) @
      [PipeSend (worker_reply j)] @ fst (work turns), snd (work turns))"
  by (simp add: worker_reply_def split: prod.splits)

lemma work_job_fault:
  "work (Job j (Some e) # turns) =
     ([BarrierWait IDLE_TIMEOUT, PipeRecv] @ fst (coroutine_checker j) @
      [PipeSend (worker_reply j)], Raised e)"
  by (simp add: worker_reply_def split: prod.splits)

lemma work_waits: "set (wait_timeouts (fst (work turns))) = {IDLE_TIMEOUT}"
proof (induction turns)
  case Nil
  then show ?case by simp
next
  case (Cons t turns)
  show ?case
  proof (cases t)
    case BarrierBroken
    then show ?thesis by simp
  next
    case (RecvFails e)
    then show ?thesis by simp
  next
    case (Job j send_fault)
    show ?thesis
    proof (cases send_fault)
      case None
      with Job Cons.IH show ?thesis
        by (simp only: work_job fst_conv wait_timeouts_append wait_timeouts_closing)
           simp
    next
      case (Some e)
      with Job show ?thesis
        by (simp only: work_job_fault fst_conv wait_timeouts_append wait_timeouts_closing)
           simp
    qed
  qed
qed

text \<open>
  C5. Every barrier wait of the worker loop uses the module constant
  \<open>IDLE_TIMEOUT = 600\<close>: \<open>work\<close> takes the barrier and the two pipes and nothing of
  the context, so a scope entered with \<open>idle_timeout = 0.1\<close> binds a context with that
  timeout while the worker still waits 600 seconds. A broken barrier makes the
  worker return, which is exit code 0.
\<close>

theorem work_waits_IDLE_TIMEOUT:
  "set (wait_timeouts (fst (work turns))) = {IDLE_TIMEOUT} \<and> IDLE_TIMEOUT = 600 \<and>
   work (BarrierBroken # turns) = ([BarrierWait IDLE_TIMEOUT], Returned) \<and>
   exitcode Returned = Some 0 \<and>
   (\<exists>ctx. fst (cache_scope (1 / 10) (Callable r) (Member SPAWN)) = Inr ctx \<and>
      idle_timeout ctx = 1 / 10 \<and> idle_timeout ctx < IDLE_TIMEOUT)"
  by (simp add: work_waits) (simp add: IDLE_TIMEOUT_def cache_scope_def)

text \<open>
  C4. After a job the worker loop goes straight on to the next turn: its actions for a
  job are the barrier wait, the receive, the closing of a coroutine if the job returned
  one, and the send, followed by the actions of the loop on the remaining turns. No
  predicate is called between two waits and the worker leaves the loop only when the
  barrier breaks (or a pipe operation raises). A scope whose \<open>retire\<close> answers true on
  its first call binds a context with that predicate, and the worker still serves both
  jobs of the example.
\<close>

theorem work_serves_every_job:
  "work (Job j None # turns) =
     ([BarrierWait IDLE_TIMEOUT, PipeRecv] @ fst (coroutine_checker j) @
      [PipeSend (worker_reply j)] @ fst (work turns), snd (work turns)) \<and>
   work [Job square None, Job square None, BarrierBroken] =
     ([BarrierWait IDLE_TIMEOUT, PipeRecv, PipeSend (PValue (PInt 49)),
       BarrierWait IDLE_TIMEOUT, PipeRecv, PipeSend (PValue (PInt 49)),
       BarrierWait IDLE_TIMEOUT], Returned) \<and>
   (\<exists>ctx. fst (cache_scope 600 (Callable (\<lambda>k. True)) (Member SPAWN)) = Inr ctx \<and>
      retire ctx 0)"
proof (intro conjI)
  show "work (Job j None # turns) =
     ([BarrierWait IDLE_TIMEOUT, PipeRecv] @ fst (coroutine_checker j) @
      [PipeSend (worker_reply j)] @ fst (work turns), snd (work turns))"
    by (rule work_job)
  have "coroutine_checker square = ([], Inr (PInt 49))"
    by (simp add: coroutine_checker_def square_def)
  then show "work [Job square None, Job square None, BarrierBroken] =
     ([BarrierWait IDLE_TIMEOUT, PipeRecv, PipeSend (PValue (PInt 49)),
       BarrierWait IDLE_TIMEOUT, PipeRecv, PipeSend (PValue (PInt 49)),
       BarrierWait IDLE_TIMEOUT], Returned)"
    by (simp add: capture_def)
  show "\<exists>ctx. fst (cache_scope 600 (Callable (\<lambda>k. True)) (Member SPAWN)) = Inr ctx \<and>
      retire ctx 0"
    by (simp add: cache_scope_def)
qed

subsection \<open>The worker handle\<close>

lemma unwrap_capture: "unwrap (capture r) = r"
  by (cases r) (simp_all add: capture_def)

lemma send_healthy:
  assumes "wfault ss = None" and "length buf < 2 ^ 64"
  shows "fst (send buf ss) = Inr ()"
proof -
  from assms(1) have "ss = \<lparr>writes = writes ss, wfault = None\<rparr>" by (cases ss) simp
  with send_appends [OF assms(2), of "writes ss"] show ?thesis by auto
qed

lemma served_reply:
  assumes "served_with hio reply_bytes reply"
  shows "send_and_receive hio = Inr reply"
proof -
  from assms obtain request where req: "pickled hio = Inr request" "length request < 2 ^ 63"
    by (auto simp: served_with_def split: sum.splits)
  from assms obtain bs where bs: "wire_bytes (pending (recv_stream hio)) = Some bs"
    "take (length (framed reply_bytes)) bs = framed reply_bytes"
    by (auto simp: served_with_def split: option.splits)
  from assms have rest: "wfault (send_stream hio) = None" "length reply_bytes < 2 ^ 63"
    "loads hio reply_bytes = Inr reply"
    by (simp_all add: served_with_def)
  from req(2) have "length request < 2 ^ 64" by simp
  with rest(1) have sent: "fst (send request (send_stream hio)) = Inr ()"
    by (rule send_healthy)
  from bs(2) have "bs = framed reply_bytes @ drop (length (framed reply_bytes)) bs"
    by (metis append_take_drop_id)
  with bs(1) have "wire_bytes (pending (recv_stream hio)) =
      Some (framed reply_bytes @ drop (length (framed reply_bytes)) bs)"
    by simp
  with rest(2) have "\<exists>s'. recv (recv_stream hio) = (Inr reply_bytes, s') \<and>
      wire_bytes (pending s') = Some (drop (length (framed reply_bytes)) bs)"
    by (rule recv_framed)
  then have "fst (recv (recv_stream hio)) = Inr reply_bytes" by auto
  with req(1) sent rest(3) show ?thesis by (simp add: send_and_receive_def)
qed

lemma proc_run_sync_served:
  assumes "served_with hio reply_bytes (worker_reply j)"
  shows "proc_run_sync h hio = (snd (coroutine_checker j), False)"
proof -
  from assms have "n_waiting hio = 0" by (simp add: served_with_def)
  with served_reply [OF assms] show ?thesis
    by (simp add: proc_run_sync_def worker_reply_def unwrap_capture)
qed

lemma proc_run_sync_eof:
  assumes "n_waiting hio = 0" "send_and_receive hio = Inl e" "kind e = EndOfChannel"
  shows "proc_run_sync h hio =
    (Inl (Exc BrokenWorkerError (proc_str h @ '' died unexpectedly'')), True)"
  using assms by (simp add: proc_run_sync_def)

lemma proc_run_sync_other:
  assumes "n_waiting hio = 0" "send_and_receive hio = Inl e" "kind e \<noteq> EndOfChannel"
  shows "proc_run_sync h hio = (Inl e, True)"
  using assms by (simp add: proc_run_sync_def)

subsection \<open>The dispatcher\<close>

lemma pop_take: "\<exists>k. snd (pop is_alive c) = take k c"
proof (induction c rule: rev_induct)
  case Nil
  then show ?case by (simp add: pop_empty)
next
  case (snoc x xs)
  show ?case
  proof (cases "is_alive x")
    case True
    then have "snd (pop is_alive (xs @ [x])) = take (length xs) (xs @ [x])"
      by (simp add: pop_snoc_live)
    then show ?thesis by blast
  next
    case False
    from snoc obtain k where "snd (pop is_alive xs) = take k xs" by blast
    with False have "snd (pop is_alive (xs @ [x])) = take (min k (length xs)) (xs @ [x])"
      by (simp add: pop_snoc_dead min_def)
    then show ?thesis by blast
  qed
qed

lemma acquire_take: "\<exists>k. snd (acquire is_alive a c) = take k c"
proof -
  have "snd (acquire is_alive a c) = snd (pop is_alive c)"
    by (simp add: acquire_def split: prod.splits sum.splits)
  with pop_take [of is_alive c] show ?thesis by simp
qed

lemma run_sync_loop_take:
  "\<exists>k. cache (snd (run_sync_loop is_alive attempts w)) = take k (cache w)"
proof (induction attempts arbitrary: w)
  case Nil
  have "cache w = take (length (cache w)) (cache w)" by simp
  then show ?case by (simp del: take_all) blast
next
  case (Cons a attempts)
  show ?case
  proof (cases "cancelled a")
    case True
    have "cache w = take (length (cache w)) (cache w)" by simp
    with True show ?thesis by (simp del: take_all) blast
  next
    case False
    obtain proc c' where acq: "acquire is_alive a (cache w) = (proc, c')"
      by (cases "acquire is_alive a (cache w)")
    with acquire_take [of is_alive a "cache w"] obtain k where k: "c' = take k (cache w)"
      by auto
    obtain r killed where run: "proc_run_sync proc (io a) = (r, killed)"
      by (cases "proc_run_sync proc (io a)")
    show ?thesis
    proof (cases r)
      case (Inl e)
      with False acq run k show ?thesis by (auto simp: Let_def)
    next
      case (Inr result)
      show ?thesis
      proof (cases "result = PNone")
        case True
        from Cons.IH [of "w\<lparr>cache := c'\<rparr>"] obtain k' where
          "cache (snd (run_sync_loop is_alive attempts (w\<lparr>cache := c'\<rparr>))) = take k' c'"
          by auto
        with k have "cache (snd (run_sync_loop is_alive attempts (w\<lparr>cache := c'\<rparr>))) =
            take (min k' k) (cache w)"
          by simp
        with False acq run Inr True show ?thesis by (auto simp: Let_def)
      next
        case not_none: False
        with False acq run Inr k show ?thesis by (auto simp: Let_def)
      qed
    qed
  qed
qed

lemma run_sync_loop_first:
  assumes "\<not> cancelled a" and "acquire is_alive a (cache w) = (proc, c')"
  shows "proc_run_sync proc (io a) = (Inl e, killed) \<Longrightarrow>
      run_sync_loop is_alive (a # rest) w =
        (Some (Inl e), \<lparr>cache = c', kills = kills w @ (if killed then [proc] else [])\<rparr>)"
    and "proc_run_sync proc (io a) = (Inr result, killed) \<Longrightarrow> result \<noteq> PNone \<Longrightarrow>
      run_sync_loop is_alive (a # rest) w = (Some (Inr (proc, result)), \<lparr>cache = c', kills = kills w\<rparr>)"
    and "proc_run_sync proc (io a) = (Inr PNone, killed) \<Longrightarrow>
      run_sync_loop is_alive (a # rest) w =
        run_sync_loop is_alive rest \<lparr>cache = c', kills = kills w\<rparr>"
  using assms by (cases w; simp add: Let_def)+


lemma framed_7: "framed [7] = [0, 0, 0, 1, 7]"
  by (simp add: framed_def send_def pack_i_def be_bytes_4 send_all_def)



lemma run_sync_loop_served_None:
  assumes "\<forall>b\<in>set attempts. \<not> cancelled b \<and> served_with (io b) reply_bytes (worker_reply j)"
    and "sync_fn j (args j) = Inr PNone"
  shows "fst (run_sync_loop is_alive attempts w) = None"
  using assms(1)
proof (induction attempts arbitrary: w)
  case Nil
  then show ?case by simp
next
  case (Cons a attempts)
  obtain proc c' where acq: "acquire is_alive a (cache w) = (proc, c')"
    by (cases "acquire is_alive a (cache w)")
  from assms(2) have "snd (coroutine_checker j) = Inr PNone"
    by (simp add: coroutine_checker_def)
  moreover from Cons.prems have "served_with (io a) reply_bytes (worker_reply j)" by simp
  then have "proc_run_sync proc (io a) = (snd (coroutine_checker j), False)"
    by (rule proc_run_sync_served)
  ultimately have "proc_run_sync proc (io a) = (Inr PNone, False)" by simp
  with Cons.prems acq
  have "run_sync_loop is_alive (a # attempts) w =
      run_sync_loop is_alive attempts \<lparr>cache = c', kills = kills w\<rparr>"
    by (intro run_sync_loop_first(3) [where killed = False]) simp_all
  with Cons show ?case by simp
qed

text \<open>
  C2. In the handle's \<open>run_sync\<close>, past the assertion: if the framed receive raises
  \<^verbatim>\<open>EndOfChannel\<close>, \<^verbatim>\<open>kill\<close> is called and \<^verbatim>\<open>BrokenWorkerError\<close> is raised; if pickling,
  sending, receiving or unpickling raises any other exception \<open>e\<close> (a cancellation
  included), \<^verbatim>\<open>kill\<close> is called and \<open>e\<close> itself is raised. In the dispatcher, when the
  handle's \<open>run_sync\<close> raises, the dispatcher raises the same exception and leaves the
  cache as the acquisition of the handle left it: a prefix of the pruned cache, with
  the kill on record. The same holds in whatever turn of the loop the failure comes.
  Only when the loop ends with a result is the handle appended to the cache.
\<close>

theorem run_sync_failure_kills:
  "(n_waiting hio = 0 \<and> pickled hio = Inr buf \<and> fst (send buf (send_stream hio)) = Inr () \<and>
    fst (recv (recv_stream hio)) = Inl e \<and> kind e = EndOfChannel \<longrightarrow>
      proc_run_sync h hio =
        (Inl (Exc BrokenWorkerError (proc_str h @ '' died unexpectedly'')), True)) \<and>
   (n_waiting hio = 0 \<and> kind e \<noteq> EndOfChannel \<and>
    (pickled hio = Inl e \<or>
     pickled hio = Inr buf \<and>
       (fst (send buf (send_stream hio)) = Inl e \<or>
        fst (send buf (send_stream hio)) = Inr () \<and>
          (fst (recv (recv_stream hio)) = Inl e \<or>
           fst (recv (recv_stream hio)) = Inr data \<and> loads hio data = Inl e))) \<longrightarrow>
      proc_run_sync h hio = (Inl e, True)) \<and>
   (\<not> cancelled a \<and> acquire is_alive a (prune is_alive (cache w)) = (proc, c') \<and>
    proc_run_sync proc (io a) = (Inl e, killed) \<longrightarrow>
      run_sync is_alive (a # rest) w =
        (Some (Inl e), \<lparr>cache = c', kills = kills w @ (if killed then [proc] else [])\<rparr>) \<and>
      (\<exists>k. c' = take k (prune is_alive (cache w)))) \<and>
   (run_sync_loop is_alive attempts (w\<lparr>cache := prune is_alive (cache w)\<rparr>) = (Some (Inl e), w') \<longrightarrow>
      run_sync is_alive attempts w = (Some (Inl e), w') \<and>
      (\<exists>k. cache w' = take k (prune is_alive (cache w)))) \<and>
   (run_sync_loop is_alive attempts (w\<lparr>cache := prune is_alive (cache w)\<rparr>) =
      (Some (Inr (proc, result)), w') \<longrightarrow>
      run_sync is_alive attempts w =
        (Some (unwrap result), w'\<lparr>cache := cache w' @ [proc]\<rparr>))"
proof (intro conjI impI)
  assume "n_waiting hio = 0 \<and> pickled hio = Inr buf \<and> fst (send buf (send_stream hio)) = Inr () \<and>
    fst (recv (recv_stream hio)) = Inl e \<and> kind e = EndOfChannel"
  then have "n_waiting hio = 0" "send_and_receive hio = Inl e" "kind e = EndOfChannel"
    by (simp_all add: send_and_receive_def)
  then show "proc_run_sync h hio =
      (Inl (Exc BrokenWorkerError (proc_str h @ '' died unexpectedly'')), True)"
    by (rule proc_run_sync_eof)
next
  assume a: "n_waiting hio = 0 \<and> kind e \<noteq> EndOfChannel \<and>
    (pickled hio = Inl e \<or>
     pickled hio = Inr buf \<and>
       (fst (send buf (send_stream hio)) = Inl e \<or>
        fst (send buf (send_stream hio)) = Inr () \<and>
          (fst (recv (recv_stream hio)) = Inl e \<or>
           fst (recv (recv_stream hio)) = Inr data \<and> loads hio data = Inl e)))"
  then have "send_and_receive hio = Inl e"
    by (auto simp: send_and_receive_def)
  with a show "proc_run_sync h hio = (Inl e, True)"
    by (intro proc_run_sync_other) simp_all
next
  assume a: "\<not> cancelled a \<and> acquire is_alive a (prune is_alive (cache w)) = (proc, c') \<and>
    proc_run_sync proc (io a) = (Inl e, killed)"
  let ?w0 = "w\<lparr>cache := prune is_alive (cache w)\<rparr>"
  from a have "run_sync_loop is_alive (a # rest) ?w0 =
      (Some (Inl e), \<lparr>cache = c', kills = kills ?w0 @ (if killed then [proc] else [])\<rparr>)"
    by (intro run_sync_loop_first(1)) simp_all
  then show "run_sync is_alive (a # rest) w =
      (Some (Inl e), \<lparr>cache = c', kills = kills w @ (if killed then [proc] else [])\<rparr>)"
    by (simp add: run_sync_def)
  from a acquire_take [of is_alive a "prune is_alive (cache w)"]
  show "\<exists>k. c' = take k (prune is_alive (cache w))" by simp
next
  assume a: "run_sync_loop is_alive attempts (w\<lparr>cache := prune is_alive (cache w)\<rparr>) =
    (Some (Inl e), w')"
  then show "run_sync is_alive attempts w = (Some (Inl e), w')"
    by (simp add: run_sync_def)
  from a run_sync_loop_take [of is_alive attempts "w\<lparr>cache := prune is_alive (cache w)\<rparr>"]
  show "\<exists>k. cache w' = take k (prune is_alive (cache w))" by simp
next
  assume "run_sync_loop is_alive attempts (w\<lparr>cache := prune is_alive (cache w)\<rparr>) =
    (Some (Inr (proc, result)), w')"
  then show "run_sync is_alive attempts w =
      (Some (unwrap result), w'\<lparr>cache := cache w' @ [proc]\<rparr>)"
    by (simp add: run_sync_def push_def)
qed

lemma died_io_recv:
  "fst (recv (recv_stream died_io)) = Inl (Exc EndOfChannel ''got end of file during message'')"
  by (simp add: died_io_def recv_def recv_exactly_def recv_exactly_loop.simps receive_some_def
      unpack_i_def be_value_def)

lemma died_io_send: "fst (send [1, 2] (send_stream died_io)) = Inr ()"
  by (simp add: died_io_def send_def pack_i_def be_bytes_4 send_all_def)

lemma cancelled_io_send: "fst (send [1, 2] (send_stream cancelled_io)) = Inl (Exc Cancelled '''')"
  by (simp add: cancelled_io_def send_def pack_i_def be_bytes_4 send_all_def)

lemma square_reply: "worker_reply square = PValue (PInt 49)"
  by (simp add: worker_reply_def coroutine_checker_def capture_def square_def)

lemma square_io_served: "served_with square_io [7] (worker_reply square)"
  by (simp add: served_with_def square_io_def framed_7 square_reply)

lemma acquire_example:
  "acquire (\<lambda>p. hid p \<noteq> 9) a
     (prune (\<lambda>p. hid p \<noteq> 9)
        [\<lparr>hid = 9, proc_str = ''<SpawnProcess 9>''\<rparr>, \<lparr>hid = 1, proc_str = ''<SpawnProcess 1>''\<rparr>,
         \<lparr>hid = 2, proc_str = ''<SpawnProcess 2>''\<rparr>]) =
   (\<lparr>hid = 2, proc_str = ''<SpawnProcess 2>''\<rparr>, [\<lparr>hid = 1, proc_str = ''<SpawnProcess 1>''\<rparr>])"
  by (simp add: acquire_def pop.simps)

theorem run_sync_failure_kills_witness:
  "proc_run_sync \<lparr>hid = 2, proc_str = ''<SpawnProcess 2>''\<rparr> died_io =
     (Inl (Exc BrokenWorkerError ''<SpawnProcess 2> died unexpectedly''), True) \<and>
   proc_run_sync \<lparr>hid = 2, proc_str = ''<SpawnProcess 2>''\<rparr> cancelled_io =
     (Inl (Exc Cancelled ''''), True) \<and>
   run_sync (\<lambda>p. hid p \<noteq> 9)
     [\<lparr>cancelled = False, fresh = \<lparr>hid = 3, proc_str = ''<SpawnProcess 3>''\<rparr>, io = died_io\<rparr>]
     \<lparr>cache = [\<lparr>hid = 9, proc_str = ''<SpawnProcess 9>''\<rparr>,
               \<lparr>hid = 1, proc_str = ''<SpawnProcess 1>''\<rparr>,
               \<lparr>hid = 2, proc_str = ''<SpawnProcess 2>''\<rparr>],
      kills = []\<rparr> =
     (Some (Inl (Exc BrokenWorkerError ''<SpawnProcess 2> died unexpectedly'')),
      \<lparr>cache = [\<lparr>hid = 1, proc_str = ''<SpawnProcess 1>''\<rparr>],
       kills = [\<lparr>hid = 2, proc_str = ''<SpawnProcess 2>''\<rparr>]\<rparr>) \<and>
   snd (run_sync (\<lambda>p. hid p \<noteq> 9)
     [\<lparr>cancelled = False, fresh = \<lparr>hid = 3, proc_str = ''<SpawnProcess 3>''\<rparr>, io = square_io\<rparr>]
     \<lparr>cache = [\<lparr>hid = 9, proc_str = ''<SpawnProcess 9>''\<rparr>,
               \<lparr>hid = 1, proc_str = ''<SpawnProcess 1>''\<rparr>,
               \<lparr>hid = 2, proc_str = ''<SpawnProcess 2>''\<rparr>],
      kills = []\<rparr>) =
     \<lparr>cache = [\<lparr>hid = 1, proc_str = ''<SpawnProcess 1>''\<rparr>,
               \<lparr>hid = 2, proc_str = ''<SpawnProcess 2>''\<rparr>],
      kills = []\<rparr>"
proof -
  let ?alive = "\<lambda>p. hid p \<noteq> (9::nat)"
  let ?h1 = "\<lparr>hid = 1, proc_str = ''<SpawnProcess 1>''\<rparr>"
  let ?h2 = "\<lparr>hid = 2, proc_str = ''<SpawnProcess 2>''\<rparr>"
  let ?h3 = "\<lparr>hid = 3, proc_str = ''<SpawnProcess 3>''\<rparr>"
  let ?h9 = "\<lparr>hid = 9, proc_str = ''<SpawnProcess 9>''\<rparr>"
  let ?w = "\<lparr>cache = [?h9, ?h1, ?h2], kills = []\<rparr>"
  let ?died = "\<lparr>cancelled = False, fresh = ?h3, io = died_io\<rparr>"
  let ?served = "\<lparr>cancelled = False, fresh = ?h3, io = square_io\<rparr>"
  have c1: "proc_run_sync ?h2 died_io =
      (Inl (Exc BrokenWorkerError ''<SpawnProcess 2> died unexpectedly''), True)"
    using run_sync_failure_kills [where hio = died_io and buf = "[1, 2]" and h = ?h2
        and e = "Exc EndOfChannel ''got end of file during message''"]
    by (simp add: died_io_recv died_io_send) (simp add: died_io_def)
  have c2: "proc_run_sync ?h2 cancelled_io = (Inl (Exc Cancelled ''''), True)"
    using run_sync_failure_kills [where hio = cancelled_io and buf = "[1, 2]" and h = ?h2
        and e = "Exc Cancelled ''''"]
    by (simp add: cancelled_io_send) (simp add: cancelled_io_def)
  have c3: "run_sync ?alive [?died] ?w =
      (Some (Inl (Exc BrokenWorkerError ''<SpawnProcess 2> died unexpectedly'')),
       \<lparr>cache = [?h1], kills = [?h2]\<rparr>)"
    using run_sync_failure_kills [where a = ?died and is_alive = ?alive and w = ?w
        and proc = ?h2 and c' = "[?h1]" and killed = True and rest = "[]"
        and e = "Exc BrokenWorkerError ''<SpawnProcess 2> died unexpectedly''"]
      acquire_example [of ?died] c1
    by simp
  have served: "proc_run_sync ?h2 square_io = (Inr (PInt 49), False)"
    using proc_run_sync_served [OF square_io_served, of ?h2]
    by (simp add: coroutine_checker_def square_def)
  have loop: "run_sync_loop ?alive [?served] (?w\<lparr>cache := prune ?alive (cache ?w)\<rparr>) =
      (Some (Inr (?h2, PInt 49)), \<lparr>cache = [?h1], kills = []\<rparr>)"
    using run_sync_loop_first(2) [where a = ?served and is_alive = ?alive
        and w = "?w\<lparr>cache := prune ?alive (cache ?w)\<rparr>" and proc = ?h2 and c' = "[?h1]"
        and result = "PInt 49" and killed = False and rest = "[]"]
      acquire_example [of ?served] served
    by simp
  have c5: "snd (run_sync ?alive [?served] ?w) = \<lparr>cache = [?h1, ?h2], kills = []\<rparr>"
    using run_sync_failure_kills [where attempts = "[?served]" and is_alive = ?alive and w = ?w
        and proc = ?h2 and result = "PInt 49" and w' = "\<lparr>cache = [?h1], kills = []\<rparr>"] loop
    by simp
  from c1 c2 c3 c5 show ?thesis by (intro conjI)
qed

text \<open>
  C1. Let a call of the dispatcher be served in its first turn: the worker runs the job
  and its reply reaches the handle. If the job returns a value \<open>v\<close> (not \<^verbatim>\<open>None\<close>, not a
  coroutine), the handle's \<open>run_sync\<close> has already unwrapped the envelope and returns
  \<open>v\<close>; the dispatcher then calls \<^verbatim>\<open>unwrap\<close> on \<open>v\<close> itself. For an integer, as for any
  value that is not an envelope, that raises \<^verbatim>\<open>AttributeError\<close>: the dispatcher does not
  return what the job returned. If the job raises \<open>e\<close>, the dispatcher raises \<open>e\<close>. If
  the job returns \<^verbatim>\<open>None\<close>, the loop takes the handle's return value for "no result yet"
  and runs the job again, on every served turn, without end.
\<close>

theorem run_sync_unwraps_twice:
  "(\<not> cancelled a \<and> served_with (io a) reply_bytes (worker_reply j) \<longrightarrow>
      (sync_fn j (args j) = Inr v \<and> v \<noteq> PNone \<and> v \<noteq> PCoroutine \<longrightarrow>
         fst (run_sync is_alive (a # rest) w) = Some (unwrap v)) \<and>
      (sync_fn j (args j) = Inr (PInt n) \<longrightarrow>
         (\<exists>msg. fst (run_sync is_alive (a # rest) w) = Some (Inl (Exc AttributeError msg)))) \<and>
      (sync_fn j (args j) = Inl e \<longrightarrow>
         fst (run_sync is_alive (a # rest) w) = Some (Inl e))) \<and>
   ((\<forall>b\<in>set attempts. \<not> cancelled b \<and> served_with (io b) reply_bytes (worker_reply j)) \<and>
    sync_fn j (args j) = Inr PNone \<longrightarrow>
      fst (run_sync is_alive attempts w) = None)"
proof (intro conjI impI)
  let ?w0 = "w\<lparr>cache := prune is_alive (cache w)\<rparr>"
  obtain proc c' where acq: "acquire is_alive a (cache ?w0) = (proc, c')"
    by (cases "acquire is_alive a (cache ?w0)")
  {
    assume a: "\<not> cancelled a \<and> served_with (io a) reply_bytes (worker_reply j)"
    then have "served_with (io a) reply_bytes (worker_reply j)" by simp
    then have run: "proc_run_sync proc (io a) = (snd (coroutine_checker j), False)"
      by (rule proc_run_sync_served)
    {
      fix u assume u: "sync_fn j (args j) = Inr u \<and> u \<noteq> PNone \<and> u \<noteq> PCoroutine"
      then have "snd (coroutine_checker j) = Inr u" by (simp add: coroutine_checker_def)
      with run have "proc_run_sync proc (io a) = (Inr u, False)" by simp
      with a acq u have "run_sync_loop is_alive (a # rest) ?w0 =
          (Some (Inr (proc, u)), \<lparr>cache = c', kills = kills ?w0\<rparr>)"
        by (intro run_sync_loop_first(2) [where killed = False]) simp_all
      then have "fst (run_sync is_alive (a # rest) w) = Some (unwrap u)"
        by (simp add: run_sync_def)
    }
    note returned = this
    {
      assume "sync_fn j (args j) = Inr v \<and> v \<noteq> PNone \<and> v \<noteq> PCoroutine"
      then show "fst (run_sync is_alive (a # rest) w) = Some (unwrap v)" by (rule returned)
    }
    {
      assume "sync_fn j (args j) = Inr (PInt n)"
      then have "fst (run_sync is_alive (a # rest) w) = Some (unwrap (PInt n))"
        by (intro returned) simp
      then show "\<exists>msg. fst (run_sync is_alive (a # rest) w) = Some (Inl (Exc AttributeError msg))"
        by simp
    }
    {
      assume "sync_fn j (args j) = Inl e"
      then have "snd (coroutine_checker j) = Inl e" by (simp add: coroutine_checker_def)
      with run have "proc_run_sync proc (io a) = (Inl e, False)" by simp
      with a acq have "run_sync_loop is_alive (a # rest) ?w0 =
          (Some (Inl e), \<lparr>cache = c', kills = kills ?w0 @ (if False then [proc] else [])\<rparr>)"
        by (intro run_sync_loop_first(1)) simp_all
      then show "fst (run_sync is_alive (a # rest) w) = Some (Inl e)"
        by (simp add: run_sync_def)
    }
  }
  {
    assume "(\<forall>b\<in>set attempts. \<not> cancelled b \<and> served_with (io b) reply_bytes (worker_reply j)) \<and>
      sync_fn j (args j) = Inr PNone"
    then have "fst (run_sync_loop is_alive attempts ?w0) = None"
      by (intro run_sync_loop_served_None [of attempts reply_bytes j]) simp_all
    then obtain w' where "run_sync_loop is_alive attempts ?w0 = (None, w')"
      by (cases "run_sync_loop is_alive attempts ?w0") auto
    then show "fst (run_sync is_alive attempts w) = None"
      by (simp add: run_sync_def)
  }
qed

theorem run_sync_unwraps_twice_witness:
  "sync_fn square (args square) = Inr (PInt 49) \<and>
   served_with square_io [7] (worker_reply square) \<and>
   fst (run_sync (\<lambda>p. True)
          [\<lparr>cancelled = False, fresh = \<lparr>hid = 0, proc_str = ''<SpawnProcess 0>''\<rparr>,
            io = square_io\<rparr>]
          \<lparr>cache = [], kills = []\<rparr>) =
     Some (Inl (Exc AttributeError
                  (quoted ''int'' @ '' object has no attribute '' @ quoted ''unwrap'')))"
proof -
  have sq: "sync_fn square (args square) = Inr (PInt 49)" by (simp add: square_def)
  from run_sync_unwraps_twice
    [where a = "\<lparr>cancelled = False, fresh = \<lparr>hid = 0, proc_str = ''<SpawnProcess 0>''\<rparr>,
                  io = square_io\<rparr>"
      and reply_bytes = "[7]" and j = square and v = "PInt 49" and is_alive = "\<lambda>p. True"
      and rest = "[]" and w = "\<lparr>cache = [], kills = []\<rparr>"]
    sq square_io_served
  have "fst (run_sync (\<lambda>p. True)
          [\<lparr>cancelled = False, fresh = \<lparr>hid = 0, proc_str = ''<SpawnProcess 0>''\<rparr>,
            io = square_io\<rparr>]
          \<lparr>cache = [], kills = []\<rparr>) = Some (unwrap (PInt 49))"
    by simp
  with sq square_io_served show ?thesis by simp
qed

subsection \<open>The default limiter\<close>

lemma limiter_second_call:
  "current_default_worker_limiter cpu (snd (current_default_worker_limiter cpu st)) =
     current_default_worker_limiter cpu st"
  by (cases "limiter_local st") (simp_all add: current_default_worker_limiter_def Let_def)

lemma limiter_calls_same:
  "limiter_local st = Some l \<Longrightarrow> limiter_calls cpu n st = (replicate n l, st)"
  by (induction n) (simp_all add: current_default_worker_limiter_def)

lemma limiter_local_after_call:
  "limiter_local (snd (current_default_worker_limiter cpu st)) =
     Some (fst (current_default_worker_limiter cpu st))"
  by (cases "limiter_local st") (simp_all add: current_default_worker_limiter_def Let_def)

text \<open>
  C9. Within one run, a second call of \<open>current_default_worker_limiter\<close> returns the
  object the first returned and changes nothing, and any number of calls in a row all
  return the object of the first; once the variable is bound, a call returns the bound
  object, whatever else the store holds by then. In a run whose variable is still unset, the first
  call creates a new limiter object, with \<open>DEFAULT_LIMIT\<close> tokens, and binds the
  variable to it; no object is created before that call. \<open>DEFAULT_LIMIT\<close> is the CPU
  count, or 1 when \<^verbatim>\<open>os.cpu_count()\<close> returns \<^verbatim>\<open>None\<close>.
\<close>

theorem current_default_worker_limiter_idempotent:
  "current_default_worker_limiter cpu (snd (current_default_worker_limiter cpu st)) =
     current_default_worker_limiter cpu st \<and>
   fst (limiter_calls cpu (Suc n) st) =
     replicate (Suc n) (fst (current_default_worker_limiter cpu st)) \<and>
   current_default_worker_limiter cpu \<lparr>limiter_local = Some l, limiters = objs\<rparr> =
     (l, \<lparr>limiter_local = Some l, limiters = objs\<rparr>) \<and>
   current_default_worker_limiter cpu \<lparr>limiter_local = None, limiters = objs\<rparr> =
     (length objs,
      \<lparr>limiter_local = Some (length objs), limiters = objs @ [DEFAULT_LIMIT cpu]\<rparr>) \<and>
   DEFAULT_LIMIT None = 1 \<and> DEFAULT_LIMIT (Some (Suc k)) = Suc k"
proof (intro conjI)
  show "current_default_worker_limiter cpu (snd (current_default_worker_limiter cpu st)) =
     current_default_worker_limiter cpu st"
    by (rule limiter_second_call)
  obtain lim st' where call: "current_default_worker_limiter cpu st = (lim, st')"
    by (cases "current_default_worker_limiter cpu st")
  with limiter_local_after_call [of cpu st] have "limiter_local st' = Some lim" by simp
  then have "limiter_calls cpu n st' = (replicate n lim, st')" by (rule limiter_calls_same)
  with call show "fst (limiter_calls cpu (Suc n) st) =
     replicate (Suc n) (fst (current_default_worker_limiter cpu st))"
    by simp
  show "current_default_worker_limiter cpu \<lparr>limiter_local = Some l, limiters = objs\<rparr> =
     (l, \<lparr>limiter_local = Some l, limiters = objs\<rparr>)"
    by (simp add: current_default_worker_limiter_def)
  show "current_default_worker_limiter cpu \<lparr>limiter_local = None, limiters = objs\<rparr> =
     (length objs,
      \<lparr>limiter_local = Some (length objs), limiters = objs @ [DEFAULT_LIMIT cpu]\<rparr>)"
    by (simp add: current_default_worker_limiter_def Let_def)
  show "DEFAULT_LIMIT None = 1" "DEFAULT_LIMIT (Some (Suc k)) = Suc k"
    by (simp_all add: DEFAULT_LIMIT_def)
qed

subsection \<open>Entering a cache scope\<close>

text \<open>
  C8. If the timeout is negative, or \<open>retire\<close> is not callable, or the worker type is
  not a member of \<open>WorkerType\<close>, entering the scope raises \<^verbatim>\<open>ValueError\<close> and has done
  nothing before: no cache is created, no context is bound, and the entry constructs
  no worker in any case. With three valid arguments the entry creates the cache, which
  is empty, and binds the context.
\<close>

theorem cache_scope_invalid_argument:
  "(timeout < 0 \<or> (\<exists>obj. retire_obj = NotCallable obj) \<or> (\<exists>obj. worker_type = NotMember obj) \<longrightarrow>
      (\<exists>msg. cache_scope timeout retire_obj worker_type = (Inl (Exc ValueError msg), []))) \<and>
   (0 \<le> timeout \<and> retire_obj = Callable r \<and> worker_type = Member wt \<longrightarrow>
      cache_scope timeout retire_obj worker_type =
        (Inr \<lparr>idle_timeout = timeout, retire = r, worker_class = wt, worker_cache = []\<rparr>,
         [CacheCreated, ContextBound]))"
  by (cases worker_type; cases retire_obj) (auto simp: cache_scope_def)

theorem cache_scope_invalid_argument_witness:
  "(\<exists>msg. cache_scope (- 1) (Callable (\<lambda>k. False)) (Member SPAWN) =
      (Inl (Exc ValueError msg), [])) \<and>
   (\<exists>msg. cache_scope 600 (NotCallable (PInt 5)) (Member SPAWN) =
      (Inl (Exc ValueError msg), [])) \<and>
   (\<exists>msg. cache_scope 600 (Callable (\<lambda>k. False)) (NotMember (PStr ''spawn'')) =
      (Inl (Exc ValueError msg), [])) \<and>
   cache_scope 600 (Callable (\<lambda>k. False)) (Member SPAWN) =
     (Inr \<lparr>idle_timeout = 600, retire = \<lambda>k. False, worker_class = SPAWN, worker_cache = []\<rparr>,
      [CacheCreated, ContextBound])"
  using cache_scope_invalid_argument [of "- 1" "Callable (\<lambda>k. False)" "Member SPAWN"]
    cache_scope_invalid_argument [of 600 "NotCallable (PInt 5)" "Member SPAWN"]
    cache_scope_invalid_argument [of 600 "Callable (\<lambda>k. False)" "NotMember (PStr ''spawn'')"]
    cache_scope_invalid_argument [of 600 "Callable (\<lambda>k. False)" "Member SPAWN" "\<lambda>k. False" SPAWN]
  by simp

end
